theory Spec2Isabelle
  imports Main "HOL-Library.Word"
begin

section \<open>Machine integers, pointers and the observable events\<close>

text \<open>
  The benchmark module \<^verbatim>\<open>kernel/lib/alf_queue_bench.c\<close> uses three integer types:
  \<^verbatim>\<open>int\<close> (32 bits, read with \<open>sint\<close> and compared with \<open><s\<close>), \<^verbatim>\<open>uint32_t\<close> and
  \<^verbatim>\<open>uint64_t\<close> (read with \<open>unat\<close>, compared with \<open><\<close>).  A conversion between
  \<^verbatim>\<open>int\<close> and \<^verbatim>\<open>uint32_t\<close> keeps the bits, \<^verbatim>\<open>int\<close> to \<^verbatim>\<open>uint64_t\<close> sign-extends
  (\<open>scast\<close>), \<^verbatim>\<open>uint32_t\<close> to \<^verbatim>\<open>uint64_t\<close> zero-extends (\<open>ucast\<close>) and \<^verbatim>\<open>uint64_t\<close> to
  \<^verbatim>\<open>int\<close> keeps the low 32 bits (\<open>ucast\<close>), as gcc does.  The kernel is built with
  \<^verbatim>\<open>-fno-strict-overflow\<close>, so \<^verbatim>\<open>i++\<close> on an \<^verbatim>\<open>int\<close> wraps.
\<close>

type_synonym u32 = "32 word"
type_synonym s32 = "32 word"
type_synonym u64 = "64 word"

text \<open>
  The item pointers handed to the queue: the address of the local \<^verbatim>\<open>on_stack\<close>, or a
  number cast to a pointer (\<^verbatim>\<open>(void *)(unsigned long)(i+20)\<close>).
\<close>

datatype ptr = Addr_on_stack | Fake u64

text \<open>
  What a run does besides returning: the log lines (without their final newline), the
  two boundary markers of the timing harness (\<^verbatim>\<open>time_bench_stop\<close> receives the 64-bit
  counter) and the calls of the queue, each with the array and count it was given and the
  \<^verbatim>\<open>int\<close> it returned.
\<close>

datatype event =
    Pr_err string
  | Pr_warn string string s32 s32
  | Pr_info string
  | Time_bench_start
  | Time_bench_stop u64
  | Mp_enqueue "ptr list" u32 s32
  | Mc_dequeue u32 s32
  | Alf_queue_free
  | Time_bench_result string s32

fun failed :: "event \<Rightarrow> bool" where
  "failed (Mp_enqueue arr n r) = (r <s 0)"
| "failed (Mc_dequeue n r) = (r <s 0)"
| "failed _ = False"

fun queue_op :: "event \<Rightarrow> bool" where
  "queue_op (Mp_enqueue arr n r) = True"
| "queue_op (Mc_dequeue n r) = True"
| "queue_op _ = False"

fun timer_op :: "event \<Rightarrow> bool" where
  "timer_op Time_bench_start = True"
| "timer_op (Time_bench_stop c) = True"
| "timer_op _ = False"

fun warning :: "event \<Rightarrow> bool" where
  "warning (Pr_warn f fn a b) = True"
| "warning _ = False"

fun width_is :: "u32 \<Rightarrow> event \<Rightarrow> bool" where
  "width_is k (Mp_enqueue arr n r) = (n = k)"
| "width_is k (Mc_dequeue n r) = (n = k)"
| "width_is k _ = True"

fun result_line :: "event \<Rightarrow> bool" where
  "result_line (Time_bench_result txt r) = True"
| "result_line _ = False"

definition no_failure :: "event list \<Rightarrow> bool" where
  "no_failure tr = (filter failed tr = [])"

definition no_queue_op :: "event list \<Rightarrow> bool" where
  "no_queue_op tr = (filter queue_op tr = [])"

definition no_timer_op :: "event list \<Rightarrow> bool" where
  "no_timer_op tr = (filter timer_op tr = [])"

text \<open>
  The count handed to \<^verbatim>\<open>time_bench_stop\<close>, when that call is the last thing a run did.
\<close>

definition measured :: "event list \<Rightarrow> int option" where
  "measured tr =
     (if tr = [] then None
      else case last tr of Time_bench_stop c \<Rightarrow> Some (uint c) | _ \<Rightarrow> None)"

text \<open>
  Modelled from the spec: \<^verbatim>\<open>struct time_bench_record\<close> is declared in
  \<^verbatim>\<open>linux/time_bench.h\<close>, which is not part of the sources; the timing harness passes a
  record that exposes \<^verbatim>\<open>loops\<close> (an unsigned 32-bit loop count) and \<^verbatim>\<open>step\<close>.  The
  code reads \<^verbatim>\<open>step\<close> into an \<^verbatim>\<open>int\<close>, so only its 32 bits matter.
\<close>

record time_bench_record =
  loops :: u32
  step :: s32

text \<open>
  The queue of \<^verbatim>\<open>linux/alf_queue.h\<close> is not part of the sources either: its
  operations are a parameter of every function below.  \<open>'q\<close> is the content of the queue
  object; a call returns its \<^verbatim>\<open>int\<close> and the new content.  The out-buffer filled by a
  dequeue is a local of the caller that is never read, so it is left out.
\<close>

record 'q alf_queue_api =
  alf_queue_alloc :: "s32 \<Rightarrow> 'q option"
  alf_mp_enqueue :: "'q \<Rightarrow> ptr list \<Rightarrow> u32 \<Rightarrow> s32 \<times> 'q"
  alf_mc_dequeue :: "'q \<Rightarrow> u32 \<Rightarrow> s32 \<times> 'q"

text \<open>
  The result of a workload function: the returned \<^verbatim>\<open>int\<close>, the queue behind
  \<^verbatim>\<open>data\<close> afterwards (\<open>None\<close> for a null pointer) and the events in program order.
\<close>

record 'q outcome =
  retval :: s32
  queue_after :: "'q option"
  emitted :: "event list"

section \<open>The loop-overhead calibrator\<close>

function for_loop_body :: "u32 \<Rightarrow> s32 \<Rightarrow> u64 \<Rightarrow> u64" where
  "for_loop_body n i loops_cnt =
     (if i < n then for_loop_body n (i + 1) (loops_cnt + 1) else loops_cnt)"
  by pat_completeness auto
termination
  by (relation "measure (\<lambda>(n, i, c). unat n - unat i)") (simp, simp, unat_arith)

declare for_loop_body.simps [simp del]

definition time_bench_for_loop :: "time_bench_record \<Rightarrow> 'q option \<Rightarrow> 'q outcome" where
  "time_bench_for_loop rec data =
     (let loops_cnt = for_loop_body (loops rec) 0 0
      in \<lparr>retval = ucast loops_cnt, queue_after = data,
          emitted = [Time_bench_start, Time_bench_stop loops_cnt]\<rparr>)"

section \<open>The single enqueue/dequeue workload\<close>

text \<open>
  The measured loops return \<open>Inl\<close> when they leave through \<^verbatim>\<open>goto fail\<close> and \<open>Inr\<close>
  with the counter when they run to the end.
\<close>

type_synonym 'q loop_result = "('q \<times> event list) + (u64 \<times> 'q \<times> event list)"

function single_loop ::
  "'q alf_queue_api \<Rightarrow> u32 \<Rightarrow> s32 \<Rightarrow> u64 \<Rightarrow> 'q \<Rightarrow> event list \<Rightarrow> 'q loop_result" where
  "single_loop api n i loops_cnt q tr =
     (if i < n then
        (case alf_mp_enqueue api q [Addr_on_stack] 1 of (r1, q1) \<Rightarrow>
           if r1 <s 0 then Inl (q1, tr @ [Mp_enqueue [Addr_on_stack] 1 r1])
           else
             (case alf_mc_dequeue api q1 1 of (r2, q2) \<Rightarrow>
                if r2 <s 0
                then Inl (q2, tr @ [Mp_enqueue [Addr_on_stack] 1 r1, Mc_dequeue 1 r2])
                else single_loop api n (i + 1) (loops_cnt + 1 + 1) q2
                       (tr @ [Mp_enqueue [Addr_on_stack] 1 r1, Mc_dequeue 1 r2])))
      else Inr (loops_cnt, q, tr))"
  by pat_completeness auto
termination
  by (relation "measure (\<lambda>(api, n, i, c, q, tr). unat n - unat i)") (simp, simp, unat_arith)

declare single_loop.simps [simp del]

definition time_bench_single_enqueue_dequeue ::
  "'q alf_queue_api \<Rightarrow> time_bench_record \<Rightarrow> 'q option \<Rightarrow> 'q outcome" where
  "time_bench_single_enqueue_dequeue api rec data =
     (case data of
        None \<Rightarrow> \<lparr>retval = - 1, queue_after = data,
                 emitted = [Pr_err ''Need queue struct ptr as input'']\<rparr>
      | Some queue \<Rightarrow>
          if push_bit 32 1 - 1 \<le> (ucast (loops rec) :: u64) * 2
          then \<lparr>retval = 0, queue_after = data,
                emitted = [Pr_err ''Loop cnt too big will overflow 32-bit'']\<rparr>
          else
            (case single_loop api (loops rec) 0 0 queue [Time_bench_start] of
               Inr (loops_cnt, q', tr) \<Rightarrow>
                 \<lparr>retval = ucast loops_cnt, queue_after = Some q',
                  emitted = tr @ [Time_bench_stop loops_cnt]\<rparr>
             | Inl (q', tr) \<Rightarrow> \<lparr>retval = 0, queue_after = Some q', emitted = tr\<rparr>))"

section \<open>The multi enqueue before dequeue workload\<close>

function multi_enqueue_loop ::
  "'q alf_queue_api \<Rightarrow> s32 \<Rightarrow> s32 \<Rightarrow> u64 \<Rightarrow> 'q \<Rightarrow> event list \<Rightarrow> 'q loop_result" where
  "multi_enqueue_loop api elems n loops_cnt q tr =
     (if n <s elems then
        (case alf_mp_enqueue api q [Addr_on_stack] 1 of (r, q') \<Rightarrow>
           if r <s 0 then Inl (q', tr @ [Mp_enqueue [Addr_on_stack] 1 r])
           else multi_enqueue_loop api elems (n + 1) (loops_cnt + 1) q'
                  (tr @ [Mp_enqueue [Addr_on_stack] 1 r]))
      else Inr (loops_cnt, q, tr))"
  by pat_completeness auto
termination
proof (relation "measure (\<lambda>(api, elems, n, c, q, tr). nat (sint elems - sint n))", goal_cases)
  case 1
  show ?case by simp
next
  case (2 api elems n c q tr r q')
  then have lt: "sint n < sint elems" by (simp add: word_sless_alt)
  moreover have "sint elems < 2 ^ 31" using sint_lt [of elems] by simp
  moreover have "- (2 ^ 31) \<le> sint n" using sint_ge [of n] by simp
  ultimately have "signed_take_bit 31 (sint n + 1) = sint n + 1"
    by (intro signed_take_bit_int_eq_self) auto
  then have "sint (n + 1) = sint n + 1" by (simp add: sint_word_add)
  with lt show ?case by simp
qed

declare multi_enqueue_loop.simps [simp del]

function multi_dequeue_loop ::
  "'q alf_queue_api \<Rightarrow> s32 \<Rightarrow> s32 \<Rightarrow> u64 \<Rightarrow> 'q \<Rightarrow> event list \<Rightarrow> 'q loop_result" where
  "multi_dequeue_loop api elems n loops_cnt q tr =
     (if n <s elems then
        (case alf_mc_dequeue api q 1 of (r, q') \<Rightarrow>
           if r <s 0 then Inl (q', tr @ [Mc_dequeue 1 r])
           else multi_dequeue_loop api elems (n + 1) (loops_cnt + 1) q'
                  (tr @ [Mc_dequeue 1 r]))
      else Inr (loops_cnt, q, tr))"
  by pat_completeness auto
termination
proof (relation "measure (\<lambda>(api, elems, n, c, q, tr). nat (sint elems - sint n))", goal_cases)
  case 1
  show ?case by simp
next
  case (2 api elems n c q tr r q')
  then have lt: "sint n < sint elems" by (simp add: word_sless_alt)
  moreover have "sint elems < 2 ^ 31" using sint_lt [of elems] by simp
  moreover have "- (2 ^ 31) \<le> sint n" using sint_ge [of n] by simp
  ultimately have "signed_take_bit 31 (sint n + 1) = sint n + 1"
    by (intro signed_take_bit_int_eq_self) auto
  then have "sint (n + 1) = sint n + 1" by (simp add: sint_word_add)
  with lt show ?case by simp
qed

declare multi_dequeue_loop.simps [simp del]

function multi_loop ::
  "'q alf_queue_api \<Rightarrow> u32 \<Rightarrow> s32 \<Rightarrow> s32 \<Rightarrow> u64 \<Rightarrow> 'q \<Rightarrow> event list \<Rightarrow> 'q loop_result" where
  "multi_loop api n elems i loops_cnt q tr =
     (if i < n then
        (case multi_enqueue_loop api elems 0 loops_cnt q tr of
           Inl f \<Rightarrow> Inl f
         | Inr (c1, q1, tr1) \<Rightarrow>
             (case multi_dequeue_loop api elems 0 c1 q1 tr1 of
                Inl f \<Rightarrow> Inl f
              | Inr (c2, q2, tr2) \<Rightarrow> multi_loop api n elems (i + 1) c2 q2 tr2))
      else Inr (loops_cnt, q, tr))"
  by pat_completeness auto
termination
  by (relation "measure (\<lambda>(api, n, elems, i, c, q, tr). unat n - unat i)")
     (simp, simp, unat_arith)

declare multi_loop.simps [simp del]

definition time_multi_enqueue_dequeue ::
  "'q alf_queue_api \<Rightarrow> time_bench_record \<Rightarrow> 'q option \<Rightarrow> 'q outcome" where
  "time_multi_enqueue_dequeue api rec data =
     (let elems = step rec in
      case data of
        None \<Rightarrow> \<lparr>retval = - 1, queue_after = data,
                 emitted = [Pr_err ''Need queue struct ptr as input'']\<rparr>
      | Some queue \<Rightarrow>
          if push_bit 32 1 - 1 \<le> (ucast (loops rec) :: u64) * 2 * scast elems
          then \<lparr>retval = 0, queue_after = data,
                emitted = [Pr_err ''Loop cnt too big will overflow 32-bit'']\<rparr>
          else
            (case multi_loop api (loops rec) elems 0 0 queue [Time_bench_start] of
               Inr (loops_cnt, q', tr) \<Rightarrow>
                 \<lparr>retval = ucast loops_cnt, queue_after = Some q',
                  emitted = tr @ [Time_bench_stop loops_cnt]\<rparr>
             | Inl (q', tr) \<Rightarrow> \<lparr>retval = - 1, queue_after = Some q', emitted = tr\<rparr>))"

section \<open>The bulk workload\<close>

definition MAX_BULK :: s32 where
  "MAX_BULK = 32"

text \<open>The fake pointers \<^verbatim>\<open>objs[i] = (void *)(unsigned long)(i+20)\<close> for \<^verbatim>\<open>i < MAX_BULK\<close>.\<close>

definition fake_objs :: "ptr list" where
  "fake_objs = map (\<lambda>i. Fake (of_nat (i + 20))) [0 ..< unat MAX_BULK]"

function bulk_loop ::
  "'q alf_queue_api \<Rightarrow> u32 \<Rightarrow> s32 \<Rightarrow> ptr list \<Rightarrow> s32 \<Rightarrow> u64 \<Rightarrow> 'q \<Rightarrow> event list
     \<Rightarrow> 'q loop_result" where
  "bulk_loop api n bulk objs i loops_cnt q tr =
     (if i < n then
        (case alf_mp_enqueue api q objs bulk of (r1, q1) \<Rightarrow>
           if r1 <s 0 then Inl (q1, tr @ [Mp_enqueue objs bulk r1])
           else
             (case alf_mc_dequeue api q1 bulk of (r2, q2) \<Rightarrow>
                if r2 <s 0
                then Inl (q2, tr @ [Mp_enqueue objs bulk r1, Mc_dequeue bulk r2])
                else bulk_loop api n bulk objs (i + 1)
                       (loops_cnt + scast bulk + scast bulk) q2
                       (tr @ [Mp_enqueue objs bulk r1, Mc_dequeue bulk r2])))
      else Inr (loops_cnt, q, tr))"
  by pat_completeness auto
termination
  by (relation "measure (\<lambda>(api, n, bulk, objs, i, c, q, tr). unat n - unat i)")
     (simp, simp, unat_arith)

declare bulk_loop.simps [simp del]

definition time_BULK_enqueue_dequeue ::
  "'q alf_queue_api \<Rightarrow> time_bench_record \<Rightarrow> 'q option \<Rightarrow> 'q outcome" where
  "time_BULK_enqueue_dequeue api rec data =
     (case data of
        None \<Rightarrow> \<lparr>retval = - 1, queue_after = data,
                 emitted = [Pr_err ''Need alf_queue as input'']\<rparr>
      | Some queue \<Rightarrow>
          let (bulk, tr0) =
                (if MAX_BULK <s step rec
                 then (MAX_BULK,
                       [Pr_warn ''%s() bulk(%d) request too big cap at %d''
                          ''time_BULK_enqueue_dequeue'' (step rec) MAX_BULK])
                 else (step rec, []))
          in
            if push_bit 32 1 - 1 \<le> (ucast (loops rec) :: u64) * scast bulk * 2
            then \<lparr>retval = 0, queue_after = data,
                  emitted = tr0 @ [Pr_err ''Loop cnt too big will overflow 32-bit'']\<rparr>
            else
              (case bulk_loop api (loops rec) bulk fake_objs 0 0 queue
                      (tr0 @ [Time_bench_start]) of
                 Inr (loops_cnt, q', tr) \<Rightarrow>
                   \<lparr>retval = ucast loops_cnt, queue_after = Some q',
                    emitted = tr @ [Time_bench_stop loops_cnt]\<rparr>
               | Inl (q', tr) \<Rightarrow> \<lparr>retval = - 1, queue_after = Some q', emitted = tr\<rparr>))"

section \<open>The driver and the module entry point\<close>

text \<open>
  Modelled from the spec: \<^verbatim>\<open>time_bench_loop\<close> belongs to the timing subsystem
  (\<^verbatim>\<open>linux/time_bench.h\<close>), which is not part of the sources.  The spec gives its
  contract: called with a loop count, a step, a label, a context and a workload function,
  it invokes the workload function on a record exposing \<^verbatim>\<open>loops\<close> and \<^verbatim>\<open>step\<close> and on the
  context, and emits a labelled result once the function has returned its count.
\<close>

definition time_bench_loop ::
  "u32 \<Rightarrow> s32 \<Rightarrow> string \<Rightarrow> 'q option \<Rightarrow> (time_bench_record \<Rightarrow> 'q option \<Rightarrow> 'q outcome)
     \<Rightarrow> 'q outcome" where
  "time_bench_loop n stp txt data func =
     (let out = func \<lparr>loops = n, step = stp\<rparr> data
      in out\<lparr>emitted := emitted out @ [Time_bench_result txt (retval out)]\<rparr>)"

definition run_benchmark_tests :: "'q alf_queue_api \<Rightarrow> s32 \<times> event list" where
  "run_benchmark_tests api =
     (let n = 10000000 :: u32;
          ring_size = 512 :: s32;
          passed_count = 0 :: s32;
          o0 = time_bench_loop (n * 1000) 0 ''for_loop'' (None :: 'q option) time_bench_for_loop;
          MPMC = alf_queue_alloc api ring_size;
          o1 = time_bench_loop n 0 ''ALF-simple'' MPMC
                 (time_bench_single_enqueue_dequeue api);
          o2 = time_bench_loop (n div 100) 128 ''ALF-multi'' (queue_after o1)
                 (time_multi_enqueue_dequeue api);
          o3 = time_bench_loop n 2 ''ALF-bulk2'' (queue_after o2)
                 (time_BULK_enqueue_dequeue api);
          o4 = time_bench_loop n 4 ''ALF-bulk4'' (queue_after o3)
                 (time_BULK_enqueue_dequeue api);
          o5 = time_bench_loop n 6 ''ALF-bulk6'' (queue_after o4)
                 (time_BULK_enqueue_dequeue api);
          o6 = time_bench_loop n 8 ''ALF-bulk8'' (queue_after o5)
                 (time_BULK_enqueue_dequeue api);
          o7 = time_bench_loop n 16 ''ALF-bulk16'' (queue_after o6)
                 (time_BULK_enqueue_dequeue api)
      in (passed_count,
          emitted o0 @ emitted o1 @ emitted o2 @ emitted o3 @ emitted o4 @ emitted o5
            @ emitted o6 @ emitted o7 @ [Alf_queue_free]))"

definition verbose :: s32 where
  "verbose = 1"

text \<open>
  \<^verbatim>\<open>ECANCELED\<close> comes from the kernel's errno header, which is not part of the sources;
  it is a parameter of the entry point.
\<close>

definition alf_queue_bench_module_init :: "s32 \<Rightarrow> 'q alf_queue_api \<Rightarrow> s32 \<times> event list" where
  "alf_queue_bench_module_init ECANCELED api =
     (let tr0 = (if verbose \<noteq> 0 then [Pr_info ''Loaded''] else [])
      in case run_benchmark_tests api of
           (r, tr) \<Rightarrow> if r <s 0 then (- ECANCELED, tr0 @ tr) else (0, tr0 @ tr))"

section \<open>Concrete queues\<close>

text \<open>
  Modelled from the spec: the queue itself (\<^verbatim>\<open>linux/alf_queue.h\<close>) is not part of the
  sources.  The spec describes it as a bounded ring of fixed capacity whose enqueue and
  dequeue take an array of item pointers and a requested count and return the number
  transferred or a negative failure code (queue full, queue empty); allocation may fail.
  \<open>ring_api\<close> is such a ring, \<open>faulty_api\<close> a ring whose dequeue is made to fail once
  a given number of dequeues has succeeded, and \<open>no_memory_api\<close> a ring whose allocation
  fails.
\<close>

type_synonym ring = "nat \<times> ptr list"

definition ring_alloc :: "s32 \<Rightarrow> ring option" where
  "ring_alloc sz = (if 0 <s sz then Some (nat (sint sz), []) else None)"

definition ring_enqueue :: "ring \<Rightarrow> ptr list \<Rightarrow> u32 \<Rightarrow> s32 \<times> ring" where
  "ring_enqueue q arr n =
     (case q of (cap, xs) \<Rightarrow>
        if cap < length xs + unat n then (- 1, q)
        else (n, (cap, xs @ take (unat n) arr)))"

definition ring_dequeue :: "ring \<Rightarrow> u32 \<Rightarrow> s32 \<times> ring" where
  "ring_dequeue q n =
     (case q of (cap, xs) \<Rightarrow>
        if length xs < unat n then (- 1, q)
        else (n, (cap, drop (unat n) xs)))"

definition ring_api :: "ring alf_queue_api" where
  "ring_api = \<lparr>alf_queue_alloc = ring_alloc, alf_mp_enqueue = ring_enqueue,
               alf_mc_dequeue = ring_dequeue\<rparr>"

definition no_memory_api :: "ring alf_queue_api" where
  "no_memory_api = \<lparr>alf_queue_alloc = (\<lambda>sz. None), alf_mp_enqueue = ring_enqueue,
                    alf_mc_dequeue = ring_dequeue\<rparr>"

definition faulty_enqueue :: "nat \<times> ring \<Rightarrow> ptr list \<Rightarrow> u32 \<Rightarrow> s32 \<times> (nat \<times> ring)" where
  "faulty_enqueue s arr n =
     (case s of (k, q) \<Rightarrow> case ring_enqueue q arr n of (r, q') \<Rightarrow> (r, (k, q')))"

definition faulty_dequeue :: "nat \<times> ring \<Rightarrow> u32 \<Rightarrow> s32 \<times> (nat \<times> ring)" where
  "faulty_dequeue s n =
     (case s of (k, q) \<Rightarrow>
        if k = 0 then (- 1, s)
        else case ring_dequeue q n of (r, q') \<Rightarrow> (r, (k - 1, q')))"

definition faulty_api :: "(nat \<times> ring) alf_queue_api" where
  "faulty_api = \<lparr>alf_queue_alloc = (\<lambda>sz. None), alf_mp_enqueue = faulty_enqueue,
                 alf_mc_dequeue = faulty_dequeue\<rparr>"

text \<open>
  A configuration was skipped: the queue behind \<open>data\<close> is as it was, no call of the
  queue was made, the timer was neither started nor stopped, and the function returned 0
  unless \<open>data\<close> was null.
\<close>

definition skipped :: "'q option \<Rightarrow> 'q outcome \<Rightarrow> bool" where
  "skipped data out =
     (queue_after out = data \<and> no_queue_op (emitted out) \<and> no_timer_op (emitted out)
      \<and> (data \<noteq> None \<longrightarrow> retval out = 0))"

section \<open>Facts about 32-bit and 64-bit arithmetic\<close>

lemma uint_ucast_up: "uint (ucast n :: 64 word) = uint n" for n :: "32 word"
proof -
  have "uint n < 2 ^ 32" using unsigned_less [of n] by simp
  then have "uint n < 2 ^ 64" by (rule less_trans) simp
  then show ?thesis by (simp add: unsigned_ucast_eq take_bit_int_eq_self)
qed

lemma uint_of_int64: "0 \<le> k \<Longrightarrow> k < 2 ^ 64 \<Longrightarrow> uint (word_of_int k :: 64 word) = k"
  by (simp add: unsigned_of_int take_bit_int_eq_self)


lemma guard_value:
  assumes "0 \<le> k" and "k < 2 ^ 64"
  shows "(4294967295 \<le> (word_of_int k :: 64 word)) = (4294967295 \<le> k)"
proof -
  have "uint (word_of_int k :: 64 word) = k" using assms by (rule uint_of_int64)
  then show ?thesis by (simp add: word_le_def)
qed

lemma product_bound:
  assumes "0 \<le> a" and "a < (2::int) ^ 32" and "0 \<le> b" and "b < 2 ^ 31"
  shows "a * 2 * b < 2 ^ 64"
proof -
  have "a \<le> 4294967295" and "b \<le> 2147483647" using assms by simp_all
  with assms have "a * 2 * b \<le> 4294967295 * 2 * 2147483647"
    by (intro mult_mono) auto
  then show ?thesis by simp
qed

lemma uint_lt32: "uint n < 4294967296" for n :: "32 word"
  using unsigned_less [of n] by simp

lemma sint_lt31: "sint e < 2147483648" for e :: "32 word"
  using sint_lt [of e] by simp

lemma single_guard:
  "(4294967295 \<le> (ucast n :: 64 word) * 2) = (4294967295 \<le> 2 * uint n)"
  for n :: "32 word"
proof -
  have lt: "uint n * 2 * 1 < 2 ^ 64"
    by (rule product_bound) (simp_all add: uint_lt32)
  have "(4294967295 \<le> (word_of_int (uint n * 2 * 1) :: 64 word))
               = (4294967295 \<le> uint n * 2 * 1)"
    by (rule guard_value [OF _ lt]) simp
  then show ?thesis by (simp add: mult.commute)
qed

lemma multi_guard:
  fixes n e :: "32 word"
  assumes "0 \<le> sint e"
  shows "(4294967295 \<le> (ucast n :: 64 word) * 2 * scast e)
           = (4294967295 \<le> 2 * uint n * sint e)"
proof -
  have lt: "uint n * 2 * sint e < 2 ^ 64"
    using assms by (intro product_bound) (simp_all add: uint_lt32 sint_lt31)
  have "(4294967295 \<le> (word_of_int (uint n * 2 * sint e) :: 64 word))
               = (4294967295 \<le> uint n * 2 * sint e)"
    using assms by (intro guard_value [OF _ lt]) simp
  then show ?thesis by (simp add: mult.commute mult.left_commute)
qed

lemma bulk_guard:
  fixes n b :: "32 word"
  assumes "0 \<le> sint b"
  shows "(4294967295 \<le> (ucast n :: 64 word) * scast b * 2)
           = (4294967295 \<le> 2 * uint n * sint b)"
  using multi_guard [OF assms, of n] by (simp add: mult.commute mult.left_commute)

lemma int_count:
  "0 \<le> sint e \<Longrightarrow> int (unat n * (2 * nat (sint e))) = 2 * uint n * sint e"
  for n e :: "32 word"
  by simp

lemma ucast_of_nat_down: "(ucast (of_nat k :: 64 word) :: 32 word) = of_nat k"
  by (simp add: unsigned_of_nat word_of_nat_eq_iff min_def)

lemma sint_of_nat_small: "int k < 2147483648 \<Longrightarrow> sint (of_nat k :: 32 word) = int k"
  by (simp add: signed_of_nat signed_take_bit_int_eq_self)

lemma sint_of_nat_big:
  assumes "2147483648 \<le> int k" and "int k < 4294967296"
  shows "sint (of_nat k :: 32 word) = int k - 4294967296"
proof -
  have "(int k + 2147483648) mod 4294967296 = int k + 2147483648 - 4294967296"
    using assms by (simp add: mod_pos_geq)
  then show ?thesis
    by (simp add: signed_of_nat signed_take_bit_eq_take_bit_shift take_bit_eq_mod)
qed

section \<open>The loops\<close>

lemma sint_inc: "i <s n \<Longrightarrow> sint (i + 1) = sint i + 1" for i n :: "32 word"
proof -
  assume "i <s n"
  then have lt: "sint i < sint n" by (simp add: word_sless_alt)
  moreover have "sint n < 2 ^ 31" using sint_lt [of n] by simp
  moreover have "- (2 ^ 31) \<le> sint i" using sint_ge [of i] by simp
  ultimately have "signed_take_bit 31 (sint i + 1) = sint i + 1"
    by (intro signed_take_bit_int_eq_self) auto
  then show ?thesis by (simp add: sint_word_add)
qed

lemma iterations_left: "i < n \<Longrightarrow> unat n - unat i = Suc (unat n - unat (i + 1))"
  for i n :: "32 word"
  by unat_arith

lemma iterations_done: "\<not> i < n \<Longrightarrow> unat n - unat i = 0" for i n :: "32 word"
  by unat_arith

lemma for_loop_body_eq: "for_loop_body n i c = c + of_nat (unat n - unat i)"
proof (induction n i c rule: for_loop_body.induct)
  case (1 n i c)
  show ?case
  proof (cases "i < n")
    case True
    with 1 show ?thesis
      by (subst for_loop_body.simps) (simp add: iterations_left)
  next
    case False
    then show ?thesis
      by (subst for_loop_body.simps) (simp add: iterations_done)
  qed
qed

lemma single_loop_count:
  "single_loop api n i c q tr = Inr (c', q', tr') \<Longrightarrow> c' = c + of_nat (2 * (unat n - unat i))"
proof (induction api n i c q tr rule: single_loop.induct)
  case (1 api n i c q tr)
  show ?case
  proof (cases "i < n")
    case True
    with 1 show ?thesis
      by (subst (asm) (2) single_loop.simps)
         (auto simp: iterations_left split: prod.splits if_splits)
  next
    case False
    with 1 show ?thesis
      by (subst (asm) (2) single_loop.simps) (simp add: iterations_done)
  qed
qed

lemma single_loop_Inl:
  "single_loop api n i c q tr = Inl (q', tr') \<Longrightarrow>
     \<exists>ext. tr' = tr @ ext \<and> ext \<noteq> [] \<and> failed (last ext) \<and> list_all queue_op ext"
proof (induction api n i c q tr rule: single_loop.induct)
  case (1 api n i c q tr)
  show ?case
  proof (cases "i < n")
    case True
    with 1 show ?thesis
      by (simp add: single_loop.simps [of api n i c q tr] split: prod.splits if_splits)
         fastforce+
  next
    case False
    with 1 show ?thesis
      by (simp add: single_loop.simps [of api n i c q tr])
  qed
qed

lemma single_loop_Inr:
  "single_loop api n i c q tr = Inr (c', q', tr') \<Longrightarrow>
     \<exists>ext. tr' = tr @ ext \<and> filter failed ext = [] \<and> list_all queue_op ext"
proof (induction api n i c q tr rule: single_loop.induct)
  case (1 api n i c q tr)
  show ?case
  proof (cases "i < n")
    case True
    with 1 show ?thesis
      by (simp add: single_loop.simps [of api n i c q tr] split: prod.splits if_splits)
         fastforce+
  next
    case False
    with 1 show ?thesis
      by (simp add: single_loop.simps [of api n i c q tr])
  qed
qed

lemma signed_left: "k <s e \<Longrightarrow> nat (sint e - sint k) = Suc (nat (sint e - sint (k + 1)))"
  for k e :: "32 word"
  using sint_inc [of k e] by (simp add: word_sless_alt)

lemma signed_done: "\<not> k <s e \<Longrightarrow> nat (sint e - sint k) = 0" for k e :: "32 word"
  by (simp add: word_sless_alt)

lemma multi_enqueue_loop_count:
  "multi_enqueue_loop api elems k c q tr = Inr (c', q', tr') \<Longrightarrow>
     c' = c + of_nat (nat (sint elems - sint k))"
proof (induction api elems k c q tr rule: multi_enqueue_loop.induct)
  case (1 api elems k c q tr)
  show ?case
  proof (cases "k <s elems")
    case True
    with 1 show ?thesis
      by (simp add: multi_enqueue_loop.simps [of api elems k c q tr] signed_left
            split: prod.splits if_splits)
  next
    case False
    with 1 show ?thesis
      by (simp add: multi_enqueue_loop.simps [of api elems k c q tr] signed_done)
  qed
qed

lemma multi_enqueue_loop_Inl:
  "multi_enqueue_loop api elems k c q tr = Inl (q', tr') \<Longrightarrow>
     \<exists>ext. tr' = tr @ ext \<and> ext \<noteq> [] \<and> failed (last ext) \<and> list_all queue_op ext"
proof (induction api elems k c q tr rule: multi_enqueue_loop.induct)
  case (1 api elems k c q tr)
  show ?case
  proof (cases "k <s elems")
    case True
    with 1 show ?thesis
      by (simp add: multi_enqueue_loop.simps [of api elems k c q tr] split: prod.splits if_splits)
         fastforce+
  next
    case False
    with 1 show ?thesis
      by (simp add: multi_enqueue_loop.simps [of api elems k c q tr])
  qed
qed

lemma multi_enqueue_loop_Inr:
  "multi_enqueue_loop api elems k c q tr = Inr (c', q', tr') \<Longrightarrow>
     \<exists>ext. tr' = tr @ ext \<and> filter failed ext = [] \<and> list_all queue_op ext"
proof (induction api elems k c q tr rule: multi_enqueue_loop.induct)
  case (1 api elems k c q tr)
  show ?case
  proof (cases "k <s elems")
    case True
    with 1 show ?thesis
      by (simp add: multi_enqueue_loop.simps [of api elems k c q tr] split: prod.splits if_splits)
         fastforce+
  next
    case False
    with 1 show ?thesis
      by (simp add: multi_enqueue_loop.simps [of api elems k c q tr])
  qed
qed

lemma multi_dequeue_loop_count:
  "multi_dequeue_loop api elems k c q tr = Inr (c', q', tr') \<Longrightarrow>
     c' = c + of_nat (nat (sint elems - sint k))"
proof (induction api elems k c q tr rule: multi_dequeue_loop.induct)
  case (1 api elems k c q tr)
  show ?case
  proof (cases "k <s elems")
    case True
    with 1 show ?thesis
      by (simp add: multi_dequeue_loop.simps [of api elems k c q tr] signed_left
            split: prod.splits if_splits)
  next
    case False
    with 1 show ?thesis
      by (simp add: multi_dequeue_loop.simps [of api elems k c q tr] signed_done)
  qed
qed

lemma multi_dequeue_loop_Inl:
  "multi_dequeue_loop api elems k c q tr = Inl (q', tr') \<Longrightarrow>
     \<exists>ext. tr' = tr @ ext \<and> ext \<noteq> [] \<and> failed (last ext) \<and> list_all queue_op ext"
proof (induction api elems k c q tr rule: multi_dequeue_loop.induct)
  case (1 api elems k c q tr)
  show ?case
  proof (cases "k <s elems")
    case True
    with 1 show ?thesis
      by (simp add: multi_dequeue_loop.simps [of api elems k c q tr] split: prod.splits if_splits)
         fastforce+
  next
    case False
    with 1 show ?thesis
      by (simp add: multi_dequeue_loop.simps [of api elems k c q tr])
  qed
qed

lemma multi_dequeue_loop_Inr:
  "multi_dequeue_loop api elems k c q tr = Inr (c', q', tr') \<Longrightarrow>
     \<exists>ext. tr' = tr @ ext \<and> filter failed ext = [] \<and> list_all queue_op ext"
proof (induction api elems k c q tr rule: multi_dequeue_loop.induct)
  case (1 api elems k c q tr)
  show ?case
  proof (cases "k <s elems")
    case True
    with 1 show ?thesis
      by (simp add: multi_dequeue_loop.simps [of api elems k c q tr] split: prod.splits if_splits)
         fastforce+
  next
    case False
    with 1 show ?thesis
      by (simp add: multi_dequeue_loop.simps [of api elems k c q tr])
  qed
qed

lemma multi_loop_count:
  "multi_loop api n elems i c q tr = Inr (c', q', tr') \<Longrightarrow>
     c' = c + of_nat ((unat n - unat i) * (2 * nat (sint elems)))"
proof (induction api n elems i c q tr rule: multi_loop.induct)
  case (1 api n elems i c q tr)
  show ?case
  proof (cases "i < n")
    case True
    from 1(2) True obtain c1 q1 tr1 c2 q2 tr2 where
      e: "multi_enqueue_loop api elems 0 c q tr = Inr (c1, q1, tr1)" and
      d: "multi_dequeue_loop api elems 0 c1 q1 tr1 = Inr (c2, q2, tr2)" and
      r: "multi_loop api n elems (i + 1) c2 q2 tr2 = Inr (c', q', tr')"
      by (auto simp: multi_loop.simps [of api n elems i c q tr] split: sum.splits)
    have "c' = c2 + of_nat ((unat n - unat (i + 1)) * (2 * nat (sint elems)))"
      using 1(1) [OF True e refl refl d refl refl r] .
    moreover have "c1 = c + of_nat (nat (sint elems))"
      using multi_enqueue_loop_count [OF e] by simp
    moreover have "c2 = c1 + of_nat (nat (sint elems))"
      using multi_dequeue_loop_count [OF d] by simp
    ultimately show ?thesis
      by (simp add: iterations_left [OF True] algebra_simps)
  next
    case False
    with 1 show ?thesis
      by (simp add: multi_loop.simps [of api n elems i c q tr] iterations_done)
  qed
qed

lemma multi_loop_Inl:
  "multi_loop api n elems i c q tr = Inl (q', tr') \<Longrightarrow>
     \<exists>ext. tr' = tr @ ext \<and> ext \<noteq> [] \<and> failed (last ext) \<and> list_all queue_op ext"
proof (induction api n elems i c q tr rule: multi_loop.induct)
  case (1 api n elems i c q tr)
  show ?case
  proof (cases "i < n")
    case True
    show ?thesis
    proof (cases "multi_enqueue_loop api elems 0 c q tr")
      case (Inl f)
      with 1(2) True have "multi_enqueue_loop api elems 0 c q tr = Inl (q', tr')"
        by (simp add: multi_loop.simps [of api n elems i c q tr])
      then show ?thesis by (rule multi_enqueue_loop_Inl)
    next
      case (Inr x)
      then obtain c1 q1 tr1 where
        e: "multi_enqueue_loop api elems 0 c q tr = Inr (c1, q1, tr1)"
        by (cases x) auto
      from multi_enqueue_loop_Inr [OF e] obtain ext1 where
        x1: "tr1 = tr @ ext1" "list_all queue_op ext1" by blast
      show ?thesis
      proof (cases "multi_dequeue_loop api elems 0 c1 q1 tr1")
        case (Inl f)
        with 1(2) True e have "multi_dequeue_loop api elems 0 c1 q1 tr1 = Inl (q', tr')"
          by (simp add: multi_loop.simps [of api n elems i c q tr])
        from multi_dequeue_loop_Inl [OF this] obtain ext2 where
          "tr' = tr1 @ ext2" "ext2 \<noteq> []" "failed (last ext2)" "list_all queue_op ext2"
          by blast
        with x1 show ?thesis
          by (intro exI [of _ "ext1 @ ext2"]) simp
      next
        case (Inr y)
        then obtain c2 q2 tr2 where
          d: "multi_dequeue_loop api elems 0 c1 q1 tr1 = Inr (c2, q2, tr2)"
          by (cases y) auto
        from multi_dequeue_loop_Inr [OF d] obtain ext2 where
          x2: "tr2 = tr1 @ ext2" "list_all queue_op ext2" by blast
        from 1(2) True e d have r: "multi_loop api n elems (i + 1) c2 q2 tr2 = Inl (q', tr')"
          by (simp add: multi_loop.simps [of api n elems i c q tr])
        from 1(1) [OF True e refl refl d refl refl r] obtain ext3 where
          "tr' = tr2 @ ext3" "ext3 \<noteq> []" "failed (last ext3)" "list_all queue_op ext3"
          by blast
        with x1 x2 show ?thesis
          by (intro exI [of _ "ext1 @ ext2 @ ext3"]) simp
      qed
    qed
  next
    case False
    with 1 show ?thesis
      by (simp add: multi_loop.simps [of api n elems i c q tr])
  qed
qed

lemma multi_loop_Inr:
  "multi_loop api n elems i c q tr = Inr (c', q', tr') \<Longrightarrow>
     \<exists>ext. tr' = tr @ ext \<and> filter failed ext = [] \<and> list_all queue_op ext"
proof (induction api n elems i c q tr rule: multi_loop.induct)
  case (1 api n elems i c q tr)
  show ?case
  proof (cases "i < n")
    case True
    from 1(2) True obtain c1 q1 tr1 c2 q2 tr2 where
      e: "multi_enqueue_loop api elems 0 c q tr = Inr (c1, q1, tr1)" and
      d: "multi_dequeue_loop api elems 0 c1 q1 tr1 = Inr (c2, q2, tr2)" and
      r: "multi_loop api n elems (i + 1) c2 q2 tr2 = Inr (c', q', tr')"
      by (auto simp: multi_loop.simps [of api n elems i c q tr] split: sum.splits)
    from multi_enqueue_loop_Inr [OF e] obtain ext1 where
      x1: "tr1 = tr @ ext1" "filter failed ext1 = []" "list_all queue_op ext1" by blast
    from multi_dequeue_loop_Inr [OF d] obtain ext2 where
      x2: "tr2 = tr1 @ ext2" "filter failed ext2 = []" "list_all queue_op ext2" by blast
    from 1(1) [OF True e refl refl d refl refl r] obtain ext3 where
      "tr' = tr2 @ ext3" "filter failed ext3 = []" "list_all queue_op ext3" by blast
    with x1 x2 show ?thesis
      by (intro exI [of _ "ext1 @ ext2 @ ext3"]) simp
  next
    case False
    with 1 show ?thesis
      by (simp add: multi_loop.simps [of api n elems i c q tr])
  qed
qed

lemma bulk_loop_count:
  "bulk_loop api n bulk objs i c q tr = Inr (c', q', tr') \<Longrightarrow>
     c' = c + of_nat (unat n - unat i) * (scast bulk + scast bulk)"
proof (induction api n bulk objs i c q tr rule: bulk_loop.induct)
  case (1 api n bulk objs i c q tr)
  show ?case
  proof (cases "i < n")
    case True
    with 1 show ?thesis
      by (auto simp: bulk_loop.simps [of api n bulk objs i c q tr] iterations_left
            algebra_simps split: prod.splits if_splits)
  next
    case False
    with 1 show ?thesis
      by (simp add: bulk_loop.simps [of api n bulk objs i c q tr] iterations_done)
  qed
qed

lemma bulk_loop_Inl:
  "bulk_loop api n bulk objs i c q tr = Inl (q', tr') \<Longrightarrow>
     \<exists>ext. tr' = tr @ ext \<and> ext \<noteq> [] \<and> failed (last ext) \<and> list_all queue_op ext
       \<and> list_all (width_is bulk) ext"
proof (induction api n bulk objs i c q tr rule: bulk_loop.induct)
  case (1 api n bulk objs i c q tr)
  show ?case
  proof (cases "i < n")
    case True
    with 1 show ?thesis
      by (simp add: bulk_loop.simps [of api n bulk objs i c q tr] split: prod.splits if_splits)
         fastforce+
  next
    case False
    with 1 show ?thesis
      by (simp add: bulk_loop.simps [of api n bulk objs i c q tr])
  qed
qed

lemma bulk_loop_Inr:
  "bulk_loop api n bulk objs i c q tr = Inr (c', q', tr') \<Longrightarrow>
     \<exists>ext. tr' = tr @ ext \<and> filter failed ext = [] \<and> list_all queue_op ext
       \<and> list_all (width_is bulk) ext"
proof (induction api n bulk objs i c q tr rule: bulk_loop.induct)
  case (1 api n bulk objs i c q tr)
  show ?case
  proof (cases "i < n")
    case True
    with 1 show ?thesis
      by (simp add: bulk_loop.simps [of api n bulk objs i c q tr] split: prod.splits if_splits)
         fastforce+
  next
    case False
    with 1 show ?thesis
      by (simp add: bulk_loop.simps [of api n bulk objs i c q tr])
  qed
qed

section \<open>The loops on a ring\<close>

lemma ring_api_simps [simp]:
  "alf_mp_enqueue ring_api = ring_enqueue" "alf_mc_dequeue ring_api = ring_dequeue"
  by (simp_all add: ring_api_def)

lemma one_not_negative: "\<not> (1 :: 32 word) <s 0"
  by (simp add: word_sless_alt)

lemma ring_single_loop:
  "api = ring_api \<Longrightarrow> q = (cap, []) \<Longrightarrow> 0 < cap \<Longrightarrow>
     \<exists>c' tr'. single_loop api n i c q tr = Inr (c', q, tr')"
proof (induction api n i c q tr rule: single_loop.induct)
  case (1 api n i c q tr)
  show ?case
  proof (cases "i < n")
    case True
    have e: "alf_mp_enqueue api q [Addr_on_stack] 1 = (1, (cap, [Addr_on_stack]))"
      using 1(2-4) by (simp add: ring_enqueue_def)
    have d: "alf_mc_dequeue api (cap, [Addr_on_stack]) 1 = (1, q)"
      using 1(2-4) by (simp add: ring_dequeue_def)
    from 1(1) [OF True e [symmetric] one_not_negative d [symmetric] one_not_negative 1(2-4)]
      True e d
    show ?thesis
      by (simp add: single_loop.simps [of api n i c q tr] one_not_negative)
  next
    case False
    then show ?thesis
      by (simp add: single_loop.simps [of api n i c q tr])
  qed
qed

lemma ring_multi_enqueue_loop:
  "api = ring_api \<Longrightarrow> length (snd q) + nat (sint elems - sint k) \<le> fst q \<Longrightarrow>
     \<exists>c' q' tr'. multi_enqueue_loop api elems k c q tr = Inr (c', q', tr') \<and>
        fst q' = fst q \<and> length (snd q') = length (snd q) + nat (sint elems - sint k)"
proof (induction api elems k c q tr rule: multi_enqueue_loop.induct)
  case (1 api elems k c q tr)
  show ?case
  proof (cases "k <s elems")
    case True
    let ?q1 = "(fst q, snd q @ [Addr_on_stack])"
    have e: "alf_mp_enqueue api q [Addr_on_stack] 1 = (1, ?q1)"
      using 1(2,3) True by (cases q) (simp add: ring_enqueue_def signed_left)
    have "length (snd ?q1) + nat (sint elems - sint (k + 1)) \<le> fst ?q1"
      using 1(3) True by (simp add: signed_left)
    from 1(1) [OF True e [symmetric] one_not_negative 1(2) this] True e
    show ?thesis
      by (simp add: multi_enqueue_loop.simps [of api elems k c q tr] one_not_negative
            signed_left)
  next
    case False
    then show ?thesis
      by (simp add: multi_enqueue_loop.simps [of api elems k c q tr] signed_done)
  qed
qed

lemma ring_multi_dequeue_loop:
  "api = ring_api \<Longrightarrow> nat (sint elems - sint k) \<le> length (snd q) \<Longrightarrow>
     \<exists>c' q' tr'. multi_dequeue_loop api elems k c q tr = Inr (c', q', tr') \<and>
        fst q' = fst q \<and> length (snd q') = length (snd q) - nat (sint elems - sint k)"
proof (induction api elems k c q tr rule: multi_dequeue_loop.induct)
  case (1 api elems k c q tr)
  show ?case
  proof (cases "k <s elems")
    case True
    let ?q1 = "(fst q, drop 1 (snd q))"
    have d: "alf_mc_dequeue api q 1 = (1, ?q1)"
      using 1(2,3) True by (cases q) (auto simp: ring_dequeue_def signed_left)
    have "nat (sint elems - sint (k + 1)) \<le> length (snd ?q1)"
      using 1(3) True by (simp add: signed_left)
    from 1(1) [OF True d [symmetric] one_not_negative 1(2) this] True d
    show ?thesis
      by (simp add: multi_dequeue_loop.simps [of api elems k c q tr] one_not_negative
            signed_left)
  next
    case False
    then show ?thesis
      by (simp add: multi_dequeue_loop.simps [of api elems k c q tr] signed_done)
  qed
qed

lemma ring_multi_loop:
  "api = ring_api \<Longrightarrow> q = (cap, []) \<Longrightarrow> nat (sint elems) \<le> cap \<Longrightarrow>
     \<exists>c' tr'. multi_loop api n elems i c q tr = Inr (c', q, tr')"
proof (induction api n elems i c q tr rule: multi_loop.induct)
  case (1 api n elems i c q tr)
  show ?case
  proof (cases "i < n")
    case True
    from ring_multi_enqueue_loop [of api q elems 0 c tr] 1(2-4)
    obtain c1 q1 tr1 where
      e: "multi_enqueue_loop api elems 0 c q tr = Inr (c1, q1, tr1)" and
      q1: "fst q1 = cap" "length (snd q1) = nat (sint elems)"
      by auto
    from ring_multi_dequeue_loop [of api elems 0 q1 c1 tr1] 1(2) q1
    obtain c2 q2 tr2 where
      d: "multi_dequeue_loop api elems 0 c1 q1 tr1 = Inr (c2, q2, tr2)" and
      q2: "fst q2 = cap" "length (snd q2) = 0"
      by auto
    from q2 have q2': "q2 = (cap, [])" by (cases q2) simp
    have "\<exists>c' tr'. multi_loop api n elems (i + 1) c2 q2 tr2 = Inr (c', q2, tr')"
      by (rule 1(1) [OF True e refl refl d refl refl 1(2) q2' 1(4)])
    moreover have "multi_loop api n elems i c q tr = multi_loop api n elems (i + 1) c2 q2 tr2"
      using True e d by (simp add: multi_loop.simps [of api n elems i c q tr])
    moreover have "q2 = q" using q2' 1(3) by simp
    ultimately show ?thesis by simp
  next
    case False
    then show ?thesis
      by (simp add: multi_loop.simps [of api n elems i c q tr])
  qed
qed

lemma ring_bulk_loop:
  "api = ring_api \<Longrightarrow> q = (cap, []) \<Longrightarrow> unat bulk \<le> cap \<Longrightarrow> unat bulk \<le> length objs \<Longrightarrow>
     \<not> bulk <s 0 \<Longrightarrow> \<exists>c' tr'. bulk_loop api n bulk objs i c q tr = Inr (c', q, tr')"
proof (induction api n bulk objs i c q tr rule: bulk_loop.induct)
  case (1 api n bulk objs i c q tr)
  show ?case
  proof (cases "i < n")
    case True
    have e: "alf_mp_enqueue api q objs bulk = (bulk, (cap, take (unat bulk) objs))"
      using 1(2-5) by (simp add: ring_enqueue_def)
    have d: "alf_mc_dequeue api (cap, take (unat bulk) objs) bulk = (bulk, q)"
      using 1(2-5) by (simp add: ring_dequeue_def)
    from 1(1) [OF True e [symmetric] 1(6) d [symmetric] 1(6) 1(2-6)] True e d 1(6)
    show ?thesis
      by (simp add: bulk_loop.simps [of api n bulk objs i c q tr])
  next
    case False
    then show ?thesis
      by (simp add: bulk_loop.simps [of api n bulk objs i c q tr])
  qed
qed

section \<open>The single enqueue/dequeue workload: results\<close>

lemma last_failed: "ext \<noteq> [] \<Longrightarrow> failed (last ext) \<Longrightarrow> filter failed ext \<noteq> []"
  by (metis filter_empty_conv last_in_set)

lemma single_rejected:
  "4294967295 \<le> 2 * uint (loops rec) \<Longrightarrow>
     time_bench_single_enqueue_dequeue api rec (Some q) =
       \<lparr>retval = 0, queue_after = Some q,
        emitted = [Pr_err ''Loop cnt too big will overflow 32-bit'']\<rparr>"
  by (simp add: time_bench_single_enqueue_dequeue_def single_guard)

lemma single_run:
  assumes "2 * uint (loops rec) < 4294967295"
  shows "(\<exists>q' ext. time_bench_single_enqueue_dequeue api rec (Some q) =
            \<lparr>retval = 0, queue_after = Some q', emitted = Time_bench_start # ext\<rparr>
          \<and> ext \<noteq> [] \<and> failed (last ext) \<and> list_all queue_op ext) \<or>
         (\<exists>q' ext. time_bench_single_enqueue_dequeue api rec (Some q) =
            \<lparr>retval = of_nat (2 * unat (loops rec)), queue_after = Some q',
             emitted = Time_bench_start # ext @ [Time_bench_stop (of_nat (2 * unat (loops rec)))]\<rparr>
          \<and> filter failed ext = [] \<and> list_all queue_op ext)"
proof (cases "single_loop api (loops rec) 0 0 q [Time_bench_start]")
  case (Inl f)
  then obtain q' tr where l: "single_loop api (loops rec) 0 0 q [Time_bench_start] = Inl (q', tr)"
    by (cases f) auto
  from single_loop_Inl [OF l] assms l show ?thesis
    by (auto simp: time_bench_single_enqueue_dequeue_def single_guard)
next
  case (Inr x)
  then obtain c q' tr where
    l: "single_loop api (loops rec) 0 0 q [Time_bench_start] = Inr (c, q', tr)"
    by (cases x) auto
  from single_loop_count [OF l] have "c = of_nat (2 * unat (loops rec))" by simp
  with single_loop_Inr [OF l] assms l show ?thesis
    by (auto simp: time_bench_single_enqueue_dequeue_def single_guard ucast_of_nat_down
          simp del: of_nat_mult of_nat_numeral)
qed

lemma single_clean:
  assumes "2 * uint (loops rec) < 4294967295"
    and "no_failure (emitted (time_bench_single_enqueue_dequeue api rec (Some q)))"
  shows "\<exists>q' ext. time_bench_single_enqueue_dequeue api rec (Some q) =
            \<lparr>retval = of_nat (2 * unat (loops rec)), queue_after = Some q',
             emitted = Time_bench_start # ext @ [Time_bench_stop (of_nat (2 * unat (loops rec)))]\<rparr>
          \<and> filter failed ext = [] \<and> list_all queue_op ext"
  using single_run [OF assms(1), of api q] assms(2)
  by (auto simp: no_failure_def dest: last_failed)

lemma measured_stop:
  "int k < 18446744073709551616 \<Longrightarrow>
     measured (tr @ [Time_bench_stop (of_nat k)]) = Some (int k)"
  by (simp add: measured_def unsigned_of_nat take_bit_nat_eq_self nat_less_iff)

lemma twice_loops_small: "int (2 * unat n) < 18446744073709551616" for n :: "32 word"
  using uint_lt32 [of n] by simp

lemma single_Inr_clean:
  assumes "single_loop api (loops rec) 0 0 q [Time_bench_start] = Inr (c, q', tr)"
  shows "no_failure (emitted (time_bench_single_enqueue_dequeue api rec (Some q)))"
  using single_loop_Inr [OF assms] assms
  by (auto simp: time_bench_single_enqueue_dequeue_def no_failure_def)

lemma ring_single_no_failure:
  assumes "0 < cap"
  shows "no_failure (emitted (time_bench_single_enqueue_dequeue ring_api rec (Some (cap, []))))"
proof -
  from ring_single_loop [OF refl refl assms] obtain c tr where
    "single_loop ring_api (loops rec) 0 0 (cap, []) [Time_bench_start] = Inr (c, (cap, []), tr)"
    by blast
  then show ?thesis by (rule single_Inr_clean)
qed

section \<open>The multi enqueue before dequeue workload: results\<close>

lemma multi_arith:
  fixes n e :: "32 word"
  assumes "0 \<le> 2 * uint n * sint e" and "2 * uint n * sint e < 4294967295"
  shows "\<not> 4294967295 \<le> (ucast n :: 64 word) * 2 * scast e"
    and "int (unat n * (2 * nat (sint e))) = 2 * uint n * sint e"
proof -
  show "\<not> 4294967295 \<le> (ucast n :: 64 word) * 2 * scast e"
  proof (cases "n = 0")
    case True
    then show ?thesis by simp
  next
    case False
    then have "uint n \<noteq> 0" by (simp add: uint_0_iff)
    moreover have "0 \<le> uint n" by simp
    ultimately have "0 < uint n" by linarith
    with assms(1) have "0 \<le> sint e" by (simp add: zero_le_mult_iff)
    with assms(2) show ?thesis by (simp add: multi_guard)
  qed
  show "int (unat n * (2 * nat (sint e))) = 2 * uint n * sint e"
  proof (cases "n = 0")
    case True
    then show ?thesis by simp
  next
    case False
    then have "uint n \<noteq> 0" by (simp add: uint_0_iff)
    moreover have "0 \<le> uint n" by simp
    ultimately have "0 < uint n" by linarith
    with assms(1) have "0 \<le> sint e" by (simp add: zero_le_mult_iff)
    then show ?thesis by simp
  qed
qed

lemma multi_rejected:
  assumes "4294967295 \<le> 2 * uint (loops rec) * sint (step rec)"
  shows "time_multi_enqueue_dequeue api rec (Some q) =
           \<lparr>retval = 0, queue_after = Some q,
            emitted = [Pr_err ''Loop cnt too big will overflow 32-bit'']\<rparr>"
proof -
  have "0 \<le> sint (step rec)"
  proof (rule ccontr)
    assume "\<not> 0 \<le> sint (step rec)"
    then have "2 * uint (loops rec) * sint (step rec) \<le> 0"
      by (intro mult_nonneg_nonpos) simp_all
    with assms show False by simp
  qed
  with assms show ?thesis
    by (simp add: time_multi_enqueue_dequeue_def Let_def multi_guard)
qed

lemma multi_Inl_shape:
  assumes "multi_loop api (loops rec) (step rec) 0 0 q [Time_bench_start] = Inl (q', tr)"
    and "\<not> 4294967295 \<le> (ucast (loops rec) :: 64 word) * 2 * scast (step rec)"
  shows "\<exists>ext. time_multi_enqueue_dequeue api rec (Some q) =
            \<lparr>retval = - 1, queue_after = Some q', emitted = Time_bench_start # ext\<rparr>
          \<and> ext \<noteq> [] \<and> failed (last ext) \<and> list_all queue_op ext"
  using multi_loop_Inl [OF assms(1)] assms
  by (auto simp: time_multi_enqueue_dequeue_def Let_def)

lemma multi_Inr_shape:
  assumes "multi_loop api (loops rec) (step rec) 0 0 q [Time_bench_start] = Inr (c, q', tr)"
    and "\<not> 4294967295 \<le> (ucast (loops rec) :: 64 word) * 2 * scast (step rec)"
  shows "\<exists>ext. time_multi_enqueue_dequeue api rec (Some q) =
            \<lparr>retval = of_nat (unat (loops rec) * (2 * nat (sint (step rec)))),
             queue_after = Some q',
             emitted = (Time_bench_start # ext)
               @ [Time_bench_stop (of_nat (unat (loops rec) * (2 * nat (sint (step rec)))))]\<rparr>
          \<and> filter failed ext = [] \<and> list_all queue_op ext"
proof -
  from multi_loop_count [OF assms(1)]
  have "c = of_nat (unat (loops rec) * (2 * nat (sint (step rec))))" by simp
  with multi_loop_Inr [OF assms(1)] assms show ?thesis
    by (auto simp: time_multi_enqueue_dequeue_def Let_def ucast_of_nat_down
          simp del: of_nat_mult of_nat_numeral)
qed

lemma multi_clean:
  assumes "\<not> 4294967295 \<le> (ucast (loops rec) :: 64 word) * 2 * scast (step rec)"
    and "no_failure (emitted (time_multi_enqueue_dequeue api rec (Some q)))"
  shows "\<exists>q' ext. time_multi_enqueue_dequeue api rec (Some q) =
            \<lparr>retval = of_nat (unat (loops rec) * (2 * nat (sint (step rec)))),
             queue_after = Some q',
             emitted = (Time_bench_start # ext)
               @ [Time_bench_stop (of_nat (unat (loops rec) * (2 * nat (sint (step rec)))))]\<rparr>
          \<and> filter failed ext = [] \<and> list_all queue_op ext"
proof (cases "multi_loop api (loops rec) (step rec) 0 0 q [Time_bench_start]")
  case (Inl f)
  then obtain q' tr where
    "multi_loop api (loops rec) (step rec) 0 0 q [Time_bench_start] = Inl (q', tr)"
    by (cases f) auto
  from multi_Inl_shape [OF this assms(1)] assms(2) show ?thesis
    by (auto simp: no_failure_def dest: last_failed)
next
  case (Inr x)
  then obtain c q' tr where
    "multi_loop api (loops rec) (step rec) 0 0 q [Time_bench_start] = Inr (c, q', tr)"
    by (cases x) auto
  from multi_Inr_shape [OF this assms(1)] show ?thesis by blast
qed

lemma multi_Inr_clean:
  assumes "multi_loop api (loops rec) (step rec) 0 0 q [Time_bench_start] = Inr (c, q', tr)"
  shows "no_failure (emitted (time_multi_enqueue_dequeue api rec (Some q)))"
  using multi_loop_Inr [OF assms] assms
  by (auto simp: time_multi_enqueue_dequeue_def Let_def no_failure_def)

lemma ring_multi_no_failure:
  assumes "nat (sint (step rec)) \<le> cap"
  shows "no_failure (emitted (time_multi_enqueue_dequeue ring_api rec (Some (cap, []))))"
proof -
  from ring_multi_loop [OF refl refl assms] obtain c tr where
    "multi_loop ring_api (loops rec) (step rec) 0 0 (cap, []) [Time_bench_start]
       = Inr (c, (cap, []), tr)"
    by blast
  then show ?thesis by (rule multi_Inr_clean)
qed

section \<open>The bulk workload: results\<close>

lemma scast_nonneg: "0 \<le> sint e \<Longrightarrow> (scast e :: 64 word) = of_nat (nat (sint e))"
  for e :: "32 word"
  by (simp only: scast_eq of_nat_nat)

lemma bulk_count_nat:
  fixes w :: "32 word"
  assumes "0 \<le> sint w"
  shows "(of_nat m :: 64 word) * (scast w + scast w) = of_nat (m * (2 * nat (sint w)))"
proof -
  have "(of_nat m :: 64 word) * (of_nat (nat (sint w)) + of_nat (nat (sint w)))
          = of_nat (m * (2 * nat (sint w)))"
    by (simp add: algebra_simps)
  then show ?thesis by (simp only: scast_nonneg [OF assms])
qed

lemma clamp_over:
  "32 < sint s \<Longrightarrow>
     (if MAX_BULK <s s
      then (MAX_BULK, [Pr_warn ''%s() bulk(%d) request too big cap at %d''
                         ''time_BULK_enqueue_dequeue'' s MAX_BULK])
      else (s, []))
     = (32, [Pr_warn ''%s() bulk(%d) request too big cap at %d''
               ''time_BULK_enqueue_dequeue'' s 32])"
  by (simp add: word_sless_alt MAX_BULK_def)

lemma clamp_within:
  "sint s \<le> 32 \<Longrightarrow>
     (if MAX_BULK <s s
      then (MAX_BULK, [Pr_warn ''%s() bulk(%d) request too big cap at %d''
                         ''time_BULK_enqueue_dequeue'' s MAX_BULK])
      else (s, []))
     = (s, [])"
  by (simp add: word_sless_alt MAX_BULK_def)

lemma bulk_rejected_raw:
  assumes "(if MAX_BULK <s step rec
            then (MAX_BULK, [Pr_warn ''%s() bulk(%d) request too big cap at %d''
                               ''time_BULK_enqueue_dequeue'' (step rec) MAX_BULK])
            else (step rec, [])) = (w, tr0)"
    and "4294967295 \<le> (ucast (loops rec) :: 64 word) * scast w * 2"
  shows "time_BULK_enqueue_dequeue api rec (Some q) =
           \<lparr>retval = 0, queue_after = Some q,
            emitted = tr0 @ [Pr_err ''Loop cnt too big will overflow 32-bit'']\<rparr>"
  using assms(2) by (simp add: time_BULK_enqueue_dequeue_def assms(1))

lemma bulk_Inl_shape:
  assumes "(if MAX_BULK <s step rec
            then (MAX_BULK, [Pr_warn ''%s() bulk(%d) request too big cap at %d''
                               ''time_BULK_enqueue_dequeue'' (step rec) MAX_BULK])
            else (step rec, [])) = (w, tr0)"
    and "\<not> 4294967295 \<le> (ucast (loops rec) :: 64 word) * scast w * 2"
    and "bulk_loop api (loops rec) w fake_objs 0 0 q (tr0 @ [Time_bench_start]) = Inl (q', tr)"
  shows "\<exists>ext. time_BULK_enqueue_dequeue api rec (Some q) =
            \<lparr>retval = - 1, queue_after = Some q',
             emitted = tr0 @ Time_bench_start # ext\<rparr>
          \<and> ext \<noteq> [] \<and> failed (last ext) \<and> list_all queue_op ext
          \<and> list_all (width_is w) ext"
  using bulk_loop_Inl [OF assms(3)] assms(2,3)
  by (auto simp: time_BULK_enqueue_dequeue_def assms(1))

lemma bulk_Inr_shape:
  assumes "(if MAX_BULK <s step rec
            then (MAX_BULK, [Pr_warn ''%s() bulk(%d) request too big cap at %d''
                               ''time_BULK_enqueue_dequeue'' (step rec) MAX_BULK])
            else (step rec, [])) = (w, tr0)"
    and "\<not> 4294967295 \<le> (ucast (loops rec) :: 64 word) * scast w * 2"
    and "bulk_loop api (loops rec) w fake_objs 0 0 q (tr0 @ [Time_bench_start])
           = Inr (c, q', tr)"
    and "0 \<le> sint w"
  shows "\<exists>ext. time_BULK_enqueue_dequeue api rec (Some q) =
            \<lparr>retval = of_nat (unat (loops rec) * (2 * nat (sint w))),
             queue_after = Some q',
             emitted = (tr0 @ Time_bench_start # ext)
               @ [Time_bench_stop (of_nat (unat (loops rec) * (2 * nat (sint w))))]\<rparr>
          \<and> filter failed ext = [] \<and> list_all queue_op ext
          \<and> list_all (width_is w) ext"
proof -
  from bulk_loop_count [OF assms(3)]
  have "c = of_nat (unat (loops rec)) * (scast w + scast w)" by simp
  then have "c = of_nat (unat (loops rec) * (2 * nat (sint w)))"
    by (simp only: bulk_count_nat [OF assms(4)])
  with bulk_loop_Inr [OF assms(3)] assms(2,3) show ?thesis
    by (auto simp: time_BULK_enqueue_dequeue_def assms(1) ucast_of_nat_down
          simp del: of_nat_mult of_nat_numeral)
qed

lemma clamp_no_failure:
  assumes "(if MAX_BULK <s step rec
            then (MAX_BULK, [Pr_warn ''%s() bulk(%d) request too big cap at %d''
                               ''time_BULK_enqueue_dequeue'' (step rec) MAX_BULK])
            else (step rec, [])) = (w, tr0)"
  shows "filter failed tr0 = []" and "filter timer_op tr0 = []" and "filter queue_op tr0 = []"
  using assms by (auto split: if_splits)

lemma bulk_clean:
  assumes "(if MAX_BULK <s step rec
            then (MAX_BULK, [Pr_warn ''%s() bulk(%d) request too big cap at %d''
                               ''time_BULK_enqueue_dequeue'' (step rec) MAX_BULK])
            else (step rec, [])) = (w, tr0)"
    and "\<not> 4294967295 \<le> (ucast (loops rec) :: 64 word) * scast w * 2"
    and "0 \<le> sint w"
    and "no_failure (emitted (time_BULK_enqueue_dequeue api rec (Some q)))"
  shows "\<exists>q' ext. time_BULK_enqueue_dequeue api rec (Some q) =
            \<lparr>retval = of_nat (unat (loops rec) * (2 * nat (sint w))),
             queue_after = Some q',
             emitted = (tr0 @ Time_bench_start # ext)
               @ [Time_bench_stop (of_nat (unat (loops rec) * (2 * nat (sint w))))]\<rparr>
          \<and> filter failed ext = [] \<and> list_all queue_op ext
          \<and> list_all (width_is w) ext"
proof (cases "bulk_loop api (loops rec) w fake_objs 0 0 q (tr0 @ [Time_bench_start])")
  case (Inl f)
  then obtain q' tr where
    "bulk_loop api (loops rec) w fake_objs 0 0 q (tr0 @ [Time_bench_start]) = Inl (q', tr)"
    by (cases f) auto
  from bulk_Inl_shape [OF assms(1,2) this] assms(4) show ?thesis
    by (auto simp: no_failure_def dest: last_failed)
next
  case (Inr x)
  then obtain c q' tr where
    "bulk_loop api (loops rec) w fake_objs 0 0 q (tr0 @ [Time_bench_start]) = Inr (c, q', tr)"
    by (cases x) auto
  from bulk_Inr_shape [OF assms(1,2) this assms(3)] show ?thesis by blast
qed

lemma bulk_Inr_clean:
  assumes "(if MAX_BULK <s step rec
            then (MAX_BULK, [Pr_warn ''%s() bulk(%d) request too big cap at %d''
                               ''time_BULK_enqueue_dequeue'' (step rec) MAX_BULK])
            else (step rec, [])) = (w, tr0)"
    and "bulk_loop api (loops rec) w fake_objs 0 0 q (tr0 @ [Time_bench_start])
           = Inr (c, q', tr)"
  shows "no_failure (emitted (time_BULK_enqueue_dequeue api rec (Some q)))"
  using bulk_loop_Inr [OF assms(2)] assms(2) clamp_no_failure(1) [OF assms(1)]
  by (auto simp: time_BULK_enqueue_dequeue_def assms(1) no_failure_def)

lemma sint_nonneg_uint:
  fixes w :: "32 word"
  assumes "0 \<le> sint w"
  shows "uint w = sint w"
proof (cases "uint w < 2147483648")
  case True
  moreover have "- 2147483648 \<le> uint w"
    using uint_ge_0 [of w] by linarith
  ultimately have "signed_take_bit 31 (uint w) = uint w"
    by (intro signed_take_bit_int_eq_self) simp_all
  then show ?thesis by (simp add: sint_uint)
next
  case False
  moreover have "uint w < 4294967296" using unsigned_less [of w] by simp
  ultimately have "(uint w + 2147483648) mod 4294967296 = uint w + 2147483648 - 4294967296"
    by (simp add: mod_pos_geq)
  then have "sint w = uint w - 4294967296"
    by (simp add: sint_uint signed_take_bit_eq_take_bit_shift take_bit_eq_mod)
  with \<open>uint w < 4294967296\<close> assms show ?thesis by simp
qed

lemma length_fake_objs: "length fake_objs = 32"
  by (simp add: fake_objs_def MAX_BULK_def)

lemma ring_bulk_no_failure:
  assumes "32 \<le> cap" and "0 \<le> sint (step rec)"
  shows "no_failure (emitted (time_BULK_enqueue_dequeue ring_api rec (Some (cap, []))))"
proof -
  obtain w tr0 where
    cl: "(if MAX_BULK <s step rec
          then (MAX_BULK, [Pr_warn ''%s() bulk(%d) request too big cap at %d''
                             ''time_BULK_enqueue_dequeue'' (step rec) MAX_BULK])
          else (step rec, [])) = (w, tr0)"
    by (cases "MAX_BULK <s step rec") auto
  then have w: "0 \<le> sint w" "sint w \<le> 32"
    using assms(2) by (auto simp: word_sless_alt MAX_BULK_def split: if_splits)
  then have "uint w = sint w" by (intro sint_nonneg_uint)
  with w have "int (unat w) \<le> 32" by simp
  then have u: "unat w \<le> 32" by linarith
  from w have n: "\<not> w <s 0" by (simp add: word_sless_alt)
  from u assms(1) have c: "unat w \<le> cap" by simp
  from u have l: "unat w \<le> length fake_objs" by (simp add: length_fake_objs)
  from ring_bulk_loop [OF refl refl c l n] obtain c tr where
    "bulk_loop ring_api (loops rec) w fake_objs 0 0 (cap, []) (tr0 @ [Time_bench_start])
       = Inr (c, (cap, []), tr)"
    by blast
  with cl show ?thesis by (rule bulk_Inr_clean)
qed

lemma queue_ops_no_warning: "list_all queue_op ext \<Longrightarrow> filter warning ext = []"
proof (induction ext)
  case Nil
  show ?case by simp
next
  case (Cons e ext)
  then show ?case by (cases e) simp_all
qed

lemma queue_ops_no_timer: "list_all queue_op ext \<Longrightarrow> filter timer_op ext = []"
proof (induction ext)
  case Nil
  show ?case by simp
next
  case (Cons e ext)
  then show ?case by (cases e) simp_all
qed

lemma thirty_two: "0 \<le> sint (32 :: 32 word)" "nat (sint (32 :: 32 word)) = 32"
  "sint (32 :: 32 word) = 32"
  by simp_all

lemma bulk_guard_32:
  "(4294967295 \<le> (ucast n :: 64 word) * scast (32 :: 32 word) * 2)
     = (4294967295 \<le> 2 * uint n * 32)"
  for n :: "32 word"
  by (simp only: bulk_guard [OF thirty_two(1)] thirty_two(3))

lemma bulk_clamped_clean:
  assumes "32 < sint (step rec)"
    and "2 * uint (loops rec) * 32 < 4294967295"
    and "no_failure (emitted (time_BULK_enqueue_dequeue api rec (Some q)))"
  shows "\<exists>q' ext. time_BULK_enqueue_dequeue api rec (Some q) =
            \<lparr>retval = of_nat (unat (loops rec) * 64), queue_after = Some q',
             emitted = ([Pr_warn ''%s() bulk(%d) request too big cap at %d''
                           ''time_BULK_enqueue_dequeue'' (step rec) 32]
                        @ Time_bench_start # ext)
               @ [Time_bench_stop (of_nat (unat (loops rec) * 64))]\<rparr>
          \<and> filter failed ext = [] \<and> list_all queue_op ext
          \<and> list_all (width_is 32) ext"
proof -
  have g: "\<not> 4294967295 \<le> (ucast (loops rec) :: 64 word) * scast (32 :: 32 word) * 2"
    using assms(2) by (simp only: bulk_guard_32)
  from bulk_clean [OF clamp_over [OF assms(1)] g thirty_two(1) assms(3)]
  show ?thesis by (simp only: thirty_two(2)) simp
qed

lemma bulk_clamped_run:
  assumes "32 < sint (step rec)"
    and "2 * uint (loops rec) * 32 < 4294967295"
  shows "\<exists>r q' ext. time_BULK_enqueue_dequeue api rec (Some q) =
            \<lparr>retval = r, queue_after = Some q',
             emitted = [Pr_warn ''%s() bulk(%d) request too big cap at %d''
                          ''time_BULK_enqueue_dequeue'' (step rec) 32,
                        Time_bench_start] @ ext\<rparr>"
proof -
  let ?w = "Pr_warn ''%s() bulk(%d) request too big cap at %d''
              ''time_BULK_enqueue_dequeue'' (step rec) 32"
  have g: "\<not> 4294967295 \<le> (ucast (loops rec) :: 64 word) * scast (32 :: 32 word) * 2"
    using assms(2) by (simp only: bulk_guard_32)
  show ?thesis
  proof (cases "bulk_loop api (loops rec) 32 fake_objs 0 0 q ([?w] @ [Time_bench_start])")
    case (Inl f)
    then obtain q' tr where
      "bulk_loop api (loops rec) 32 fake_objs 0 0 q ([?w] @ [Time_bench_start]) = Inl (q', tr)"
      by (cases f) auto
    from bulk_Inl_shape [OF clamp_over [OF assms(1)] g this] show ?thesis by auto
  next
    case (Inr x)
    then obtain c q' tr where
      "bulk_loop api (loops rec) 32 fake_objs 0 0 q ([?w] @ [Time_bench_start])
         = Inr (c, q', tr)"
      by (cases x) auto
    from bulk_Inr_shape [OF clamp_over [OF assms(1)] g this thirty_two(1)]
    show ?thesis by auto
  qed
qed

lemma bulk_rejected:
  assumes "4294967295 \<le> 2 * uint (loops rec) * min (sint (step rec)) 32"
  shows "\<exists>tr0. time_BULK_enqueue_dequeue api rec (Some q) =
            \<lparr>retval = 0, queue_after = Some q,
             emitted = tr0 @ [Pr_err ''Loop cnt too big will overflow 32-bit'']\<rparr>
          \<and> filter timer_op tr0 = [] \<and> filter queue_op tr0 = []"
proof (cases "32 < sint (step rec)")
  case True
  with assms have "4294967295 \<le> 2 * uint (loops rec) * 32" by (simp add: min_def)
  then have g: "4294967295 \<le> (ucast (loops rec) :: 64 word) * scast (32 :: 32 word) * 2"
    by (simp only: bulk_guard_32)
  have "time_BULK_enqueue_dequeue api rec (Some q) =
          \<lparr>retval = 0, queue_after = Some q,
           emitted = [Pr_warn ''%s() bulk(%d) request too big cap at %d''
                        ''time_BULK_enqueue_dequeue'' (step rec) 32]
                     @ [Pr_err ''Loop cnt too big will overflow 32-bit'']\<rparr>"
    by (rule bulk_rejected_raw [OF clamp_over [OF True] g])
  then show ?thesis
    by (intro exI [of _ "[Pr_warn ''%s() bulk(%d) request too big cap at %d''
                            ''time_BULK_enqueue_dequeue'' (step rec) 32]"]) simp
next
  case False
  with assms have p: "4294967295 \<le> 2 * uint (loops rec) * sint (step rec)"
    by (simp add: min_def)
  have n: "0 \<le> sint (step rec)"
  proof (rule ccontr)
    assume "\<not> 0 \<le> sint (step rec)"
    then have "2 * uint (loops rec) * sint (step rec) \<le> 0"
      by (intro mult_nonneg_nonpos) simp_all
    with p show False by simp
  qed
  from p have g: "4294967295 \<le> (ucast (loops rec) :: 64 word) * scast (step rec) * 2"
    by (simp only: bulk_guard [OF n])
  from False have "sint (step rec) \<le> 32" by simp
  then have "time_BULK_enqueue_dequeue api rec (Some q) =
          \<lparr>retval = 0, queue_after = Some q,
           emitted = [] @ [Pr_err ''Loop cnt too big will overflow 32-bit'']\<rparr>"
    by (rule bulk_rejected_raw [OF clamp_within g])
  then show ?thesis by (intro exI [of _ "[]"]) simp
qed

lemma bulk_clamped_shape:
  assumes "32 < sint (step rec)"
  shows "filter warning (emitted (time_BULK_enqueue_dequeue api rec (Some q)))
           = [Pr_warn ''%s() bulk(%d) request too big cap at %d''
                ''time_BULK_enqueue_dequeue'' (step rec) 32]
         \<and> list_all (width_is 32) (emitted (time_BULK_enqueue_dequeue api rec (Some q)))"
proof -
  let ?w = "Pr_warn ''%s() bulk(%d) request too big cap at %d''
              ''time_BULK_enqueue_dequeue'' (step rec) 32"
  note cl = clamp_over [OF assms]
  show ?thesis
  proof (cases "4294967295 \<le> (ucast (loops rec) :: 64 word) * scast (32 :: 32 word) * 2")
    case True
    from bulk_rejected_raw [OF cl True, of api q] show ?thesis by simp
  next
    case False
    show ?thesis
    proof (cases "bulk_loop api (loops rec) 32 fake_objs 0 0 q ([?w] @ [Time_bench_start])")
      case (Inl f)
      then obtain q' tr where
        "bulk_loop api (loops rec) 32 fake_objs 0 0 q ([?w] @ [Time_bench_start])
           = Inl (q', tr)"
        by (cases f) auto
      from bulk_Inl_shape [OF cl False this] obtain ext where
        out: "time_BULK_enqueue_dequeue api rec (Some q) =
                \<lparr>retval = - 1, queue_after = Some q',
                 emitted = [?w] @ Time_bench_start # ext\<rparr>"
        and ext: "list_all queue_op ext" "list_all (width_is 32) ext"
        by blast
      show ?thesis
        unfolding out outcome.simps using queue_ops_no_warning [OF ext(1)] ext(2) by simp
    next
      case (Inr x)
      then obtain c q' tr where
        "bulk_loop api (loops rec) 32 fake_objs 0 0 q ([?w] @ [Time_bench_start])
           = Inr (c, q', tr)"
        by (cases x) auto
      from bulk_Inr_shape [OF cl False this thirty_two(1)] obtain ext where
        out: "time_BULK_enqueue_dequeue api rec (Some q) =
                \<lparr>retval = of_nat (unat (loops rec) * (2 * nat (sint (32 :: 32 word)))),
                 queue_after = Some q',
                 emitted = ([?w] @ Time_bench_start # ext)
                   @ [Time_bench_stop
                        (of_nat (unat (loops rec) * (2 * nat (sint (32 :: 32 word)))))]\<rparr>"
        and ext: "list_all queue_op ext" "list_all (width_is 32) ext"
        by blast
      show ?thesis
        unfolding out outcome.simps using queue_ops_no_warning [OF ext(1)] ext(2) by simp
    qed
  qed
qed

section \<open>Runs in which a call of the queue fails\<close>

lemma failed_not_stop:
  "failed e \<Longrightarrow> (case e of Time_bench_stop c \<Rightarrow> Some (uint c) | _ \<Rightarrow> None) = None"
  by (cases e) simp_all

lemma fail_shape:
  assumes "ext \<noteq> []" and "failed (last ext)" and "list_all queue_op ext"
    and "filter timer_op tr0 = []"
  shows "failed (last (tr0 @ Time_bench_start # ext))
         \<and> filter timer_op (tr0 @ Time_bench_start # ext) = [Time_bench_start]
         \<and> measured (tr0 @ Time_bench_start # ext) = None"
  using assms by (simp add: measured_def failed_not_stop queue_ops_no_timer)

lemma single_failure:
  assumes "\<not> no_failure (emitted (time_bench_single_enqueue_dequeue api rec data))"
  shows "retval (time_bench_single_enqueue_dequeue api rec data) = 0
         \<and> failed (last (emitted (time_bench_single_enqueue_dequeue api rec data)))
         \<and> filter timer_op (emitted (time_bench_single_enqueue_dequeue api rec data))
           = [Time_bench_start]
         \<and> measured (emitted (time_bench_single_enqueue_dequeue api rec data)) = None"
proof (cases data)
  case None
  with assms show ?thesis
    by (simp add: time_bench_single_enqueue_dequeue_def no_failure_def)
next
  case (Some q)
  show ?thesis
  proof (cases "4294967295 \<le> (ucast (loops rec) :: 64 word) * 2")
    case True
    with assms Some show ?thesis
      by (simp add: time_bench_single_enqueue_dequeue_def no_failure_def)
  next
    case False
    show ?thesis
    proof (cases "single_loop api (loops rec) 0 0 q [Time_bench_start]")
      case (Inl f)
      then obtain q' tr where
        l: "single_loop api (loops rec) 0 0 q [Time_bench_start] = Inl (q', tr)"
        by (cases f) auto
      from single_loop_Inl [OF l] obtain ext where
        ext: "tr = [] @ Time_bench_start # ext" "ext \<noteq> []" "failed (last ext)"
          "list_all queue_op ext"
        by auto
      have "time_bench_single_enqueue_dequeue api rec data =
              \<lparr>retval = 0, queue_after = Some q', emitted = [] @ Time_bench_start # ext\<rparr>"
        using Some False l ext(1) by (simp add: time_bench_single_enqueue_dequeue_def)
      with fail_shape [OF ext(2-4), of "[]"] show ?thesis by simp
    next
      case (Inr x)
      then obtain c q' tr where
        "single_loop api (loops rec) 0 0 q [Time_bench_start] = Inr (c, q', tr)"
        by (cases x) auto
      from single_Inr_clean [OF this] assms Some show ?thesis by simp
    qed
  qed
qed

lemma multi_failure:
  assumes "\<not> no_failure (emitted (time_multi_enqueue_dequeue api rec data))"
  shows "retval (time_multi_enqueue_dequeue api rec data) = - 1
         \<and> failed (last (emitted (time_multi_enqueue_dequeue api rec data)))
         \<and> filter timer_op (emitted (time_multi_enqueue_dequeue api rec data))
           = [Time_bench_start]
         \<and> measured (emitted (time_multi_enqueue_dequeue api rec data)) = None"
proof (cases data)
  case None
  with assms show ?thesis
    by (simp add: time_multi_enqueue_dequeue_def no_failure_def)
next
  case (Some q)
  show ?thesis
  proof (cases "4294967295 \<le> (ucast (loops rec) :: 64 word) * 2 * scast (step rec)")
    case True
    with assms Some show ?thesis
      by (simp add: time_multi_enqueue_dequeue_def no_failure_def)
  next
    case False
    show ?thesis
    proof (cases "multi_loop api (loops rec) (step rec) 0 0 q [Time_bench_start]")
      case (Inl f)
      then obtain q' tr where
        l: "multi_loop api (loops rec) (step rec) 0 0 q [Time_bench_start] = Inl (q', tr)"
        by (cases f) auto
      from multi_Inl_shape [OF l False] obtain ext where
        out: "time_multi_enqueue_dequeue api rec (Some q) =
                \<lparr>retval = - 1, queue_after = Some q', emitted = [] @ Time_bench_start # ext\<rparr>"
        and ext: "ext \<noteq> []" "failed (last ext)" "list_all queue_op ext"
        by auto
      from fail_shape [OF ext, of "[]"] out Some show ?thesis by simp
    next
      case (Inr x)
      then obtain c q' tr where
        "multi_loop api (loops rec) (step rec) 0 0 q [Time_bench_start] = Inr (c, q', tr)"
        by (cases x) auto
      from multi_Inr_clean [OF this] assms Some show ?thesis by simp
    qed
  qed
qed

lemma bulk_failure:
  assumes "\<not> no_failure (emitted (time_BULK_enqueue_dequeue api rec data))"
  shows "retval (time_BULK_enqueue_dequeue api rec data) = - 1
         \<and> failed (last (emitted (time_BULK_enqueue_dequeue api rec data)))
         \<and> filter timer_op (emitted (time_BULK_enqueue_dequeue api rec data))
           = [Time_bench_start]
         \<and> measured (emitted (time_BULK_enqueue_dequeue api rec data)) = None"
proof (cases data)
  case None
  with assms show ?thesis
    by (simp add: time_BULK_enqueue_dequeue_def no_failure_def)
next
  case (Some q)
  obtain w tr0 where
    cl: "(if MAX_BULK <s step rec
          then (MAX_BULK, [Pr_warn ''%s() bulk(%d) request too big cap at %d''
                             ''time_BULK_enqueue_dequeue'' (step rec) MAX_BULK])
          else (step rec, [])) = (w, tr0)"
    by (cases "MAX_BULK <s step rec") auto
  note quiet = clamp_no_failure [OF cl]
  show ?thesis
  proof (cases "4294967295 \<le> (ucast (loops rec) :: 64 word) * scast w * 2")
    case True
    from bulk_rejected_raw [OF cl True, of api q] assms Some quiet(1) show ?thesis
      by (simp add: no_failure_def)
  next
    case False
    show ?thesis
    proof (cases "bulk_loop api (loops rec) w fake_objs 0 0 q (tr0 @ [Time_bench_start])")
      case (Inl f)
      then obtain q' tr where
        l: "bulk_loop api (loops rec) w fake_objs 0 0 q (tr0 @ [Time_bench_start])
              = Inl (q', tr)"
        by (cases f) auto
      from bulk_Inl_shape [OF cl False l] obtain ext where
        out: "time_BULK_enqueue_dequeue api rec (Some q) =
                \<lparr>retval = - 1, queue_after = Some q', emitted = tr0 @ Time_bench_start # ext\<rparr>"
        and ext: "ext \<noteq> []" "failed (last ext)" "list_all queue_op ext"
        by auto
      from fail_shape [OF ext quiet(2)] out Some show ?thesis by simp
    next
      case (Inr x)
      then obtain c q' tr where
        "bulk_loop api (loops rec) w fake_objs 0 0 q (tr0 @ [Time_bench_start])
           = Inr (c, q', tr)"
        by (cases x) auto
      from bulk_Inr_clean [OF cl this] assms Some show ?thesis by simp
    qed
  qed
qed

section \<open>The returned int and the calibrator\<close>

lemma uint_of_nat32: "uint (of_nat k :: 32 word) = int k mod 4294967296"
  by (simp add: unsigned_of_nat take_bit_eq_mod of_nat_mod)

lemma bulk_plain_clean:
  assumes "sint (step rec) \<le> 32" and "0 \<le> sint (step rec)"
    and "2 * uint (loops rec) * sint (step rec) < 4294967295"
    and "no_failure (emitted (time_BULK_enqueue_dequeue api rec (Some q)))"
  shows "\<exists>q' ext. time_BULK_enqueue_dequeue api rec (Some q) =
            \<lparr>retval = of_nat (unat (loops rec) * (2 * nat (sint (step rec)))),
             queue_after = Some q',
             emitted = ([] @ Time_bench_start # ext)
               @ [Time_bench_stop (of_nat (unat (loops rec) * (2 * nat (sint (step rec)))))]\<rparr>
          \<and> filter failed ext = [] \<and> list_all queue_op ext
          \<and> list_all (width_is (step rec)) ext"
proof -
  have g: "\<not> 4294967295 \<le> (ucast (loops rec) :: 64 word) * scast (step rec) * 2"
    using assms(3) by (simp only: bulk_guard [OF assms(2)])
  show ?thesis by (rule bulk_clean [OF clamp_within [OF assms(1)] g assms(2,4)])
qed

lemma for_loop_total: "for_loop_body n 0 0 = ucast n"
  by (simp add: for_loop_body_eq)

lemma ucast_up_down: "(ucast (ucast n :: 64 word) :: 32 word) = n" for n :: "32 word"
proof -
  have "(ucast (of_nat (unat n) :: 64 word) :: 32 word) = of_nat (unat n)"
    by (rule ucast_of_nat_down)
  then show ?thesis by simp
qed

section \<open>The driver\<close>

lemma null_single: "time_bench_single_enqueue_dequeue api rec None =
     \<lparr>retval = - 1, queue_after = None,
      emitted = [Pr_err ''Need queue struct ptr as input'']\<rparr>"
  by (simp add: time_bench_single_enqueue_dequeue_def)

lemma null_multi: "time_multi_enqueue_dequeue api rec None =
     \<lparr>retval = - 1, queue_after = None,
      emitted = [Pr_err ''Need queue struct ptr as input'']\<rparr>"
  by (simp add: time_multi_enqueue_dequeue_def)

lemma null_bulk: "time_BULK_enqueue_dequeue api rec None =
     \<lparr>retval = - 1, queue_after = None, emitted = [Pr_err ''Need alf_queue as input'']\<rparr>"
  by (simp add: time_BULK_enqueue_dequeue_def)

lemma for_loop_out: "time_bench_for_loop rec data =
   \<lparr>retval = loops rec, queue_after = data,
    emitted = [Time_bench_start, Time_bench_stop (ucast (loops rec))]\<rparr>"
  by (simp add: time_bench_for_loop_def for_loop_total ucast_up_down)

lemma alloc_none: "alf_queue_alloc no_memory_api sz = None"
  by (simp add: no_memory_api_def)

section \<open>Properties of the benchmark\<close>

text \<open>
  C1.  When no call of the queue reports failure and \<open>2 * loops\<close> is at most
  \<open>2^31 - 1\<close>, the single enqueue/dequeue workload returns exactly \<open>2 * loops\<close>, and
  hands the same count to \<^verbatim>\<open>time_bench_stop\<close>; for \<open>loops = 1000000\<close> it returns
  \<open>2000000\<close>.  (The bound of the overflow guard, \<open>2^32 - 1\<close>, is not enough: the
  return type is \<^verbatim>\<open>int\<close>.)
\<close>

theorem single_op_count:
  assumes "no_failure (emitted (time_bench_single_enqueue_dequeue api rec (Some q)))"
    and "2 * uint (loops rec) \<le> 2147483647"
  shows "sint (retval (time_bench_single_enqueue_dequeue api rec (Some q)))
           = 2 * uint (loops rec)
         \<and> measured (emitted (time_bench_single_enqueue_dequeue api rec (Some q)))
           = Some (2 * uint (loops rec))
         \<and> (loops rec = 1000000 \<longrightarrow>
              sint (retval (time_bench_single_enqueue_dequeue api rec (Some q))) = 2000000)"
proof -
  let ?out = "time_bench_single_enqueue_dequeue api rec (Some q)"
  from assms(2) have g: "2 * uint (loops rec) < 4294967295" by simp
  from single_clean [OF g assms(1)] obtain q' ext where
    out: "?out = \<lparr>retval = of_nat (2 * unat (loops rec)), queue_after = Some q',
                   emitted = (Time_bench_start # ext)
                       @ [Time_bench_stop (of_nat (2 * unat (loops rec)))]\<rparr>"
    by auto
  have "sint (of_nat (2 * unat (loops rec)) :: 32 word) = int (2 * unat (loops rec))"
    using assms(2) by (intro sint_of_nat_small) simp
  with out have r: "sint (retval ?out) = 2 * uint (loops rec)" by simp
  have "measured (emitted ?out) = Some (int (2 * unat (loops rec)))"
    unfolding out outcome.simps by (rule measured_stop) (rule twice_loops_small)
  then have m: "measured (emitted ?out) = Some (2 * uint (loops rec))" by simp
  from r m show ?thesis by simp
qed

theorem single_op_count_witness:
  "no_failure (emitted (time_bench_single_enqueue_dequeue ring_api
        \<lparr>loops = 1000000, step = 0\<rparr> (Some (512, []))))
   \<and> sint (retval (time_bench_single_enqueue_dequeue ring_api
        \<lparr>loops = 1000000, step = 0\<rparr> (Some (512, [])))) = 2000000"
proof -
  have h: "no_failure (emitted (time_bench_single_enqueue_dequeue ring_api
        \<lparr>loops = 1000000, step = 0\<rparr> (Some (512, []))))"
    by (rule ring_single_no_failure) simp
  from single_op_count [OF h] h show ?thesis by simp
qed

theorem single_op_count_counterexample:
  "2 * uint (1073741824 :: 32 word) < 4294967295
   \<and> no_failure (emitted (time_bench_single_enqueue_dequeue ring_api
        \<lparr>loops = 1073741824, step = 0\<rparr> (Some (512, []))))
   \<and> sint (retval (time_bench_single_enqueue_dequeue ring_api
        \<lparr>loops = 1073741824, step = 0\<rparr> (Some (512, [])))) = - 2147483648
   \<and> sint (retval (time_bench_single_enqueue_dequeue ring_api
        \<lparr>loops = 1073741824, step = 0\<rparr> (Some (512, []))))
       \<noteq> 2 * uint (1073741824 :: 32 word)"
proof -
  let ?rec = "\<lparr>loops = 1073741824, step = 0\<rparr>"
  have h: "no_failure (emitted (time_bench_single_enqueue_dequeue ring_api ?rec
             (Some (512, []))))"
    by (rule ring_single_no_failure) simp
  have g: "2 * uint (loops ?rec) < 4294967295" by simp
  from single_clean [OF g h] have
    "retval (time_bench_single_enqueue_dequeue ring_api ?rec (Some (512, [])))
       = of_nat (2 * unat (loops ?rec))"
    by auto
  then have "sint (retval (time_bench_single_enqueue_dequeue ring_api ?rec (Some (512, []))))
       = - 2147483648"
    by simp
  with h show ?thesis by simp
qed

text \<open>
  C2.  When no call of the queue reports failure and \<open>2 * loops * elems\<close> lies between
  \<open>0\<close> and \<open>2^31 - 1\<close>, the multi workload returns exactly \<open>2 * loops * elems\<close> and
  hands the same count to \<^verbatim>\<open>time_bench_stop\<close>; for \<open>loops = 100000\<close> and
  \<open>elems = 128\<close> it returns \<open>25600000\<close>.
\<close>

theorem multi_count:
  assumes "no_failure (emitted (time_multi_enqueue_dequeue api rec (Some q)))"
    and "0 \<le> 2 * uint (loops rec) * sint (step rec)"
    and "2 * uint (loops rec) * sint (step rec) \<le> 2147483647"
  shows "sint (retval (time_multi_enqueue_dequeue api rec (Some q)))
           = 2 * uint (loops rec) * sint (step rec)
         \<and> measured (emitted (time_multi_enqueue_dequeue api rec (Some q)))
           = Some (2 * uint (loops rec) * sint (step rec))
         \<and> (loops rec = 100000 \<and> step rec = 128 \<longrightarrow>
              sint (retval (time_multi_enqueue_dequeue api rec (Some q))) = 25600000)"
proof -
  let ?out = "time_multi_enqueue_dequeue api rec (Some q)"
  let ?k = "unat (loops rec) * (2 * nat (sint (step rec)))"
  from assms(3) have lt: "2 * uint (loops rec) * sint (step rec) < 4294967295" by simp
  note ar = multi_arith [OF assms(2) lt]
  from multi_clean [OF ar(1) assms(1)] obtain q' ext where
    out: "?out = \<lparr>retval = of_nat ?k, queue_after = Some q',
                   emitted = (Time_bench_start # ext) @ [Time_bench_stop (of_nat ?k)]\<rparr>"
    by auto
  have "sint (of_nat ?k :: 32 word) = int ?k"
    using assms(3) by (intro sint_of_nat_small) (simp only: ar(2))
  with out have r: "sint (retval ?out) = 2 * uint (loops rec) * sint (step rec)"
    by (simp only: ar(2) outcome.simps)
  have "int ?k < 18446744073709551616" using lt by (simp only: ar(2))
  then have "measured (emitted ?out) = Some (int ?k)"
    unfolding out outcome.simps by (rule measured_stop)
  then have m: "measured (emitted ?out) = Some (2 * uint (loops rec) * sint (step rec))"
    by (simp only: ar(2))
  from r m show ?thesis by simp
qed

theorem multi_count_witness:
  "no_failure (emitted (time_multi_enqueue_dequeue ring_api
        \<lparr>loops = 100000, step = 128\<rparr> (Some (512, []))))
   \<and> sint (retval (time_multi_enqueue_dequeue ring_api
        \<lparr>loops = 100000, step = 128\<rparr> (Some (512, [])))) = 25600000"
proof -
  have h: "no_failure (emitted (time_multi_enqueue_dequeue ring_api
        \<lparr>loops = 100000, step = 128\<rparr> (Some (512, []))))"
    by (rule ring_multi_no_failure) simp
  from multi_count [OF h] h show ?thesis by simp
qed

theorem multi_count_counterexample:
  "2 * uint (8388608 :: 32 word) * sint (128 :: 32 word) < 4294967295
   \<and> no_failure (emitted (time_multi_enqueue_dequeue ring_api
        \<lparr>loops = 8388608, step = 128\<rparr> (Some (512, []))))
   \<and> sint (retval (time_multi_enqueue_dequeue ring_api
        \<lparr>loops = 8388608, step = 128\<rparr> (Some (512, [])))) = - 2147483648
   \<and> sint (retval (time_multi_enqueue_dequeue ring_api
        \<lparr>loops = 8388608, step = 128\<rparr> (Some (512, []))))
       \<noteq> 2 * uint (8388608 :: 32 word) * sint (128 :: 32 word)"
proof -
  let ?rec = "\<lparr>loops = 8388608, step = 128\<rparr>"
  have h: "no_failure (emitted (time_multi_enqueue_dequeue ring_api ?rec (Some (512, []))))"
    by (rule ring_multi_no_failure) simp
  have g: "\<not> 4294967295 \<le> (ucast (loops ?rec) :: 64 word) * 2 * scast (step ?rec)"
    by simp
  from multi_clean [OF g h] have
    "retval (time_multi_enqueue_dequeue ring_api ?rec (Some (512, [])))
       = of_nat (unat (loops ?rec) * (2 * nat (sint (step ?rec))))"
    by auto
  then have "sint (retval (time_multi_enqueue_dequeue ring_api ?rec (Some (512, []))))
       = - 2147483648"
    by simp
  with h show ?thesis by simp
qed

text \<open>
  C3.  With a queue, a bulk width above 32 is always clamped to 32: the workload emits
  exactly one warning, which reports the width asked for and the cap, every call of the
  queue is made with 32 items, and the configuration is not skipped as long as
  \<open>2 * loops * 32\<close> is below the limit of the overflow guard.  When moreover no call
  reports failure and \<open>2 * loops * 32\<close> is at most \<open>2^31 - 1\<close>, it returns exactly
  \<open>2 * loops * 32\<close> and hands the same count to \<^verbatim>\<open>time_bench_stop\<close>; for
  \<open>loops = 10000000\<close> and \<open>bulk = 50\<close> it returns \<open>640000000\<close>.
\<close>

theorem bulk_clamped_count:
  assumes "32 < sint (step rec)"
  shows "filter warning (emitted (time_BULK_enqueue_dequeue api rec (Some q)))
           = [Pr_warn ''%s() bulk(%d) request too big cap at %d''
                ''time_BULK_enqueue_dequeue'' (step rec) 32]
         \<and> list_all (width_is 32) (emitted (time_BULK_enqueue_dequeue api rec (Some q)))
         \<and> (2 * uint (loops rec) * 32 < 4294967295 \<longrightarrow>
              \<not> skipped (Some q) (time_BULK_enqueue_dequeue api rec (Some q)))
         \<and> (no_failure (emitted (time_BULK_enqueue_dequeue api rec (Some q)))
              \<and> 2 * uint (loops rec) * 32 \<le> 2147483647 \<longrightarrow>
              sint (retval (time_BULK_enqueue_dequeue api rec (Some q)))
                = 2 * uint (loops rec) * 32
              \<and> measured (emitted (time_BULK_enqueue_dequeue api rec (Some q)))
                = Some (2 * uint (loops rec) * 32))
         \<and> (no_failure (emitted (time_BULK_enqueue_dequeue api rec (Some q)))
              \<and> loops rec = 10000000 \<and> step rec = 50 \<longrightarrow>
              sint (retval (time_BULK_enqueue_dequeue api rec (Some q))) = 640000000)"
proof -
  let ?out = "time_BULK_enqueue_dequeue api rec (Some q)"
  let ?k = "unat (loops rec) * 64"
  let ?w = "Pr_warn ''%s() bulk(%d) request too big cap at %d''
              ''time_BULK_enqueue_dequeue'' (step rec) 32"
  note shape = bulk_clamped_shape [OF assms, of api q]
  have run: "\<not> skipped (Some q) ?out" if lt: "2 * uint (loops rec) * 32 < 4294967295"
  proof -
    from bulk_clamped_run [OF assms lt, of api q] obtain r q' ext where
      out: "?out = \<lparr>retval = r, queue_after = Some q',
                     emitted = [?w, Time_bench_start] @ ext\<rparr>"
      by blast
    show ?thesis unfolding out by (simp add: skipped_def no_timer_op_def)
  qed
  have cnt: "sint (retval ?out) = 2 * uint (loops rec) * 32
             \<and> measured (emitted ?out) = Some (2 * uint (loops rec) * 32)"
    if h: "no_failure (emitted ?out)" and le: "2 * uint (loops rec) * 32 \<le> 2147483647"
  proof -
    from le have lt: "2 * uint (loops rec) * 32 < 4294967295" by simp
    from bulk_clamped_clean [OF assms lt h] obtain q' ext where
      out: "?out = \<lparr>retval = of_nat ?k, queue_after = Some q',
                     emitted = ([?w] @ Time_bench_start # ext)
                       @ [Time_bench_stop (of_nat ?k)]\<rparr>"
      by blast
    have k: "int ?k = 2 * uint (loops rec) * 32" by simp
    have "sint (of_nat ?k :: 32 word) = int ?k"
      using le by (intro sint_of_nat_small) (simp only: k)
    with out have r: "sint (retval ?out) = 2 * uint (loops rec) * 32"
      by (simp only: k outcome.simps)
    have "int ?k < 18446744073709551616" using lt by (simp only: k)
    then have "measured (emitted ?out) = Some (int ?k)"
      unfolding out outcome.simps by (rule measured_stop)
    then have "measured (emitted ?out) = Some (2 * uint (loops rec) * 32)"
      by (simp only: k)
    with r show ?thesis by simp
  qed
  have scn: "sint (retval ?out) = 640000000"
    if h: "no_failure (emitted ?out)" and l: "loops rec = 10000000" and "step rec = 50"
  proof -
    from l have "2 * uint (loops rec) * 32 \<le> 2147483647" by simp
    from cnt [OF h this] l show ?thesis by simp
  qed
  from shape run cnt scn show ?thesis by blast
qed

theorem bulk_clamped_count_witness:
  "32 < sint (50 :: 32 word)
   \<and> filter warning (emitted (time_BULK_enqueue_dequeue ring_api
        \<lparr>loops = 10000000, step = 50\<rparr> (Some (512, []))))
       = [Pr_warn ''%s() bulk(%d) request too big cap at %d''
            ''time_BULK_enqueue_dequeue'' 50 32]
   \<and> list_all (width_is 32) (emitted (time_BULK_enqueue_dequeue ring_api
        \<lparr>loops = 10000000, step = 50\<rparr> (Some (512, []))))
   \<and> \<not> skipped (Some (512, [])) (time_BULK_enqueue_dequeue ring_api
        \<lparr>loops = 10000000, step = 50\<rparr> (Some (512, [])))
   \<and> no_failure (emitted (time_BULK_enqueue_dequeue ring_api
        \<lparr>loops = 10000000, step = 50\<rparr> (Some (512, []))))
   \<and> sint (retval (time_BULK_enqueue_dequeue ring_api
        \<lparr>loops = 10000000, step = 50\<rparr> (Some (512, [])))) = 640000000
   \<and> measured (emitted (time_BULK_enqueue_dequeue ring_api
        \<lparr>loops = 10000000, step = 50\<rparr> (Some (512, [])))) = Some 640000000"
proof -
  have h: "no_failure (emitted (time_BULK_enqueue_dequeue ring_api
        \<lparr>loops = 10000000, step = 50\<rparr> (Some (512, []))))"
    by (rule ring_bulk_no_failure) simp_all
  have b: "32 < sint (step \<lparr>loops = 10000000, step = 50\<rparr>)" by simp
  from bulk_clamped_count [OF b, of ring_api "(512, [])"] h show ?thesis by simp
qed

theorem bulk_clamped_count_counterexample:
  "32 < sint (50 :: 32 word)
   \<and> 2 * uint (33554432 :: 32 word) * 32 < 4294967295
   \<and> no_failure (emitted (time_BULK_enqueue_dequeue ring_api
        \<lparr>loops = 33554432, step = 50\<rparr> (Some (512, []))))
   \<and> sint (retval (time_BULK_enqueue_dequeue ring_api
        \<lparr>loops = 33554432, step = 50\<rparr> (Some (512, [])))) = - 2147483648
   \<and> sint (retval (time_BULK_enqueue_dequeue ring_api
        \<lparr>loops = 33554432, step = 50\<rparr> (Some (512, []))))
       \<noteq> 2 * uint (33554432 :: 32 word) * 32"
proof -
  let ?rec = "\<lparr>loops = 33554432, step = 50\<rparr>"
  have h: "no_failure (emitted (time_BULK_enqueue_dequeue ring_api ?rec (Some (512, []))))"
    by (rule ring_bulk_no_failure) simp_all
  have b: "32 < sint (step ?rec)" by simp
  have g: "2 * uint (loops ?rec) * 32 < 4294967295" by simp
  from bulk_clamped_clean [OF b g h] have
    "retval (time_BULK_enqueue_dequeue ring_api ?rec (Some (512, [])))
       = of_nat (unat (loops ?rec) * 64)"
    by auto
  then have "sint (retval (time_BULK_enqueue_dequeue ring_api ?rec (Some (512, []))))
       = - 2147483648"
    by simp
  with h show ?thesis by simp
qed

text \<open>
  C4.  What the code does when a call of the queue reports failure, here on a ring of two
  slots that is already full, so that the first enqueue fails: every workload stops at
  the failed call and never reaches \<^verbatim>\<open>time_bench_stop\<close>, but only the single
  enqueue/dequeue workload returns \<open>0\<close>; the fail labels of the multi and of the bulk
  workload return \<open>-1\<close>.  A dequeue that fails in iteration 5 of 100 makes the single
  workload return \<open>0\<close> after ten calls of the queue.
\<close>

theorem failure_return_values:
  "\<not> no_failure (emitted (time_bench_single_enqueue_dequeue ring_api
        \<lparr>loops = 100, step = 1\<rparr> (Some (2, [Addr_on_stack, Addr_on_stack]))))
   \<and> sint (retval (time_bench_single_enqueue_dequeue ring_api
        \<lparr>loops = 100, step = 1\<rparr> (Some (2, [Addr_on_stack, Addr_on_stack])))) = 0
   \<and> \<not> no_failure (emitted (time_multi_enqueue_dequeue ring_api
        \<lparr>loops = 100, step = 1\<rparr> (Some (2, [Addr_on_stack, Addr_on_stack]))))
   \<and> sint (retval (time_multi_enqueue_dequeue ring_api
        \<lparr>loops = 100, step = 1\<rparr> (Some (2, [Addr_on_stack, Addr_on_stack])))) = - 1
   \<and> \<not> no_failure (emitted (time_BULK_enqueue_dequeue ring_api
        \<lparr>loops = 100, step = 1\<rparr> (Some (2, [Addr_on_stack, Addr_on_stack]))))
   \<and> sint (retval (time_BULK_enqueue_dequeue ring_api
        \<lparr>loops = 100, step = 1\<rparr> (Some (2, [Addr_on_stack, Addr_on_stack])))) = - 1
   \<and> emitted (time_multi_enqueue_dequeue ring_api
        \<lparr>loops = 100, step = 1\<rparr> (Some (2, [Addr_on_stack, Addr_on_stack])))
       = [Time_bench_start, Mp_enqueue [Addr_on_stack] 1 (- 1)]
   \<and> \<not> no_failure (emitted (time_bench_single_enqueue_dequeue faulty_api
        \<lparr>loops = 100, step = 0\<rparr> (Some (4, (512, [])))))
   \<and> length (filter queue_op (emitted (time_bench_single_enqueue_dequeue faulty_api
        \<lparr>loops = 100, step = 0\<rparr> (Some (4, (512, [])))))) = 10
   \<and> sint (retval (time_bench_single_enqueue_dequeue faulty_api
        \<lparr>loops = 100, step = 0\<rparr> (Some (4, (512, []))))) = 0"
  by code_simp

text \<open>
  C5.  A configuration whose operation count \<open>loops * ops_per_iteration\<close> is
  \<open>2^32 - 1\<close> or more is skipped by every workload before the timer is started: the
  function returns 0 (when the queue pointer is not null), the queue is as it was, and
  neither the queue nor the timer has been called.  The operations per iteration are
  \<open>2\<close>, \<open>2 * elems\<close> and, for the bulk workload, twice the width it uses, which is
  the smaller of \<open>bulk\<close> and 32.
\<close>

theorem overflow_guard_skips:
  "(4294967295 \<le> 2 * uint (loops rec) \<longrightarrow>
      skipped data (time_bench_single_enqueue_dequeue api rec data))
   \<and> (4294967295 \<le> 2 * uint (loops rec) * sint (step rec) \<longrightarrow>
      skipped data (time_multi_enqueue_dequeue api rec data))
   \<and> (4294967295 \<le> 2 * uint (loops rec) * min (sint (step rec)) 32 \<longrightarrow>
      skipped data (time_BULK_enqueue_dequeue api rec data))"
proof (cases data)
  case None
  then show ?thesis
    by (simp add: skipped_def time_bench_single_enqueue_dequeue_def
          time_multi_enqueue_dequeue_def time_BULK_enqueue_dequeue_def
          no_queue_op_def no_timer_op_def)
next
  case (Some q)
  have "skipped data (time_bench_single_enqueue_dequeue api rec data)"
    if "4294967295 \<le> 2 * uint (loops rec)"
    using single_rejected [OF that, of api q] Some
    by (simp add: skipped_def no_queue_op_def no_timer_op_def)
  moreover have "skipped data (time_multi_enqueue_dequeue api rec data)"
    if "4294967295 \<le> 2 * uint (loops rec) * sint (step rec)"
    using multi_rejected [OF that, of api q] Some
    by (simp add: skipped_def no_queue_op_def no_timer_op_def)
  moreover have "skipped data (time_BULK_enqueue_dequeue api rec data)"
    if "4294967295 \<le> 2 * uint (loops rec) * min (sint (step rec)) 32"
    using bulk_rejected [OF that, of api q] Some
    by (auto simp: skipped_def no_queue_op_def no_timer_op_def)
  ultimately show ?thesis by blast
qed

theorem overflow_guard_skips_witness:
  "4294967295 \<le> 2 * uint (2147483648 :: 32 word)
   \<and> skipped (Some (512, []))
        (time_bench_single_enqueue_dequeue ring_api \<lparr>loops = 2147483648, step = 50\<rparr>
           (Some (512, [])))
   \<and> 4294967295 \<le> 2 * uint (2147483648 :: 32 word) * sint (50 :: 32 word)
   \<and> skipped (Some (512, []))
        (time_multi_enqueue_dequeue ring_api \<lparr>loops = 2147483648, step = 50\<rparr>
           (Some (512, [])))
   \<and> 4294967295 \<le> 2 * uint (2147483648 :: 32 word) * min (sint (50 :: 32 word)) 32
   \<and> skipped (Some (512, []))
        (time_BULK_enqueue_dequeue ring_api \<lparr>loops = 2147483648, step = 50\<rparr>
           (Some (512, [])))"
  using overflow_guard_skips [of "\<lparr>loops = 2147483648, step = 50\<rparr>" "Some (512, [])" ring_api]
  by simp

text \<open>
  C6.  What the code does when the allocation of the queue fails: the driver does not look
  at the result of \<^verbatim>\<open>alf_queue_alloc\<close>.  It still invokes all seven queue
  configurations, each of which logs its error and returns \<open>-1\<close>, and it returns
  \<^verbatim>\<open>passed_count\<close>, which is never changed from \<open>0\<close>; the module entry point
  therefore returns \<open>0\<close> and never \<^verbatim>\<open>-ECANCELED\<close>.
\<close>

theorem alloc_failure_not_surfaced:
  "fst (run_benchmark_tests no_memory_api) = 0
   \<and> filter result_line (snd (run_benchmark_tests no_memory_api))
     = [Time_bench_result ''for_loop'' 1410065408,
        Time_bench_result ''ALF-simple'' (- 1),
        Time_bench_result ''ALF-multi'' (- 1),
        Time_bench_result ''ALF-bulk2'' (- 1),
        Time_bench_result ''ALF-bulk4'' (- 1),
        Time_bench_result ''ALF-bulk6'' (- 1),
        Time_bench_result ''ALF-bulk8'' (- 1),
        Time_bench_result ''ALF-bulk16'' (- 1)]
   \<and> fst (alf_queue_bench_module_init ECANCELED no_memory_api) = 0
   \<and> fst (run_benchmark_tests api) = 0
   \<and> fst (alf_queue_bench_module_init ECANCELED api) = 0"
proof -
  have a: "fst (run_benchmark_tests api) = 0" for api :: "'b alf_queue_api"
    by (simp add: run_benchmark_tests_def Let_def)
  have b: "fst (alf_queue_bench_module_init ECANCELED api) = 0" for api :: "'b alf_queue_api"
  proof -
    obtain tr where "run_benchmark_tests api = (0, tr)"
      using a [of api] by (cases "run_benchmark_tests api") auto
    then show ?thesis
      by (simp add: alf_queue_bench_module_init_def Let_def word_sless_alt)
  qed
  have c: "filter result_line (snd (run_benchmark_tests no_memory_api))
     = [Time_bench_result ''for_loop'' 1410065408,
        Time_bench_result ''ALF-simple'' (- 1),
        Time_bench_result ''ALF-multi'' (- 1),
        Time_bench_result ''ALF-bulk2'' (- 1),
        Time_bench_result ''ALF-bulk4'' (- 1),
        Time_bench_result ''ALF-bulk6'' (- 1),
        Time_bench_result ''ALF-bulk8'' (- 1),
        Time_bench_result ''ALF-bulk16'' (- 1)]"
    by (simp add: run_benchmark_tests_def Let_def time_bench_loop_def
          for_loop_out alloc_none null_single null_multi null_bulk)
  from a [of no_memory_api] a [of api] b [of no_memory_api] b [of api] c
  show ?thesis by simp
qed

text \<open>
  C7.  The calibrator only starts and stops the timer: it hands the requested iteration
  count, exactly, to \<^verbatim>\<open>time_bench_stop\<close>, leaves \<open>data\<close> alone and returns the low
  32 bits of the count as an \<^verbatim>\<open>int\<close>.  The returned value is the requested count
  whenever that is at most \<open>2^31 - 1\<close>.
\<close>

theorem for_loop_count:
  "emitted (time_bench_for_loop rec data)
     = [Time_bench_start, Time_bench_stop (ucast (loops rec))]
   \<and> measured (emitted (time_bench_for_loop rec data)) = Some (uint (loops rec))
   \<and> queue_after (time_bench_for_loop rec data) = data
   \<and> retval (time_bench_for_loop rec data) = loops rec
   \<and> (uint (loops rec) \<le> 2147483647 \<longrightarrow>
        sint (retval (time_bench_for_loop rec data)) = uint (loops rec))"
proof -
  have "uint (loops rec) \<le> 2147483647 \<longrightarrow> sint (loops rec) = uint (loops rec)"
  proof
    assume "uint (loops rec) \<le> 2147483647"
    moreover have "- 2147483648 \<le> uint (loops rec)"
      using uint_ge_0 [of "loops rec"] by linarith
    ultimately have "signed_take_bit 31 (uint (loops rec)) = uint (loops rec)"
      by (intro signed_take_bit_int_eq_self) simp_all
    then show "sint (loops rec) = uint (loops rec)" by (simp add: sint_uint)
  qed
  then show ?thesis
    by (simp add: time_bench_for_loop_def for_loop_total ucast_up_down measured_def
          uint_ucast_up)
qed

theorem for_loop_count_witness:
  "uint (1410065408 :: 32 word) \<le> 2147483647
   \<and> sint (retval (time_bench_for_loop \<lparr>loops = 1410065408, step = 0\<rparr>
        (None :: ring option))) = 1410065408"
  using for_loop_count [of "\<lparr>loops = 1410065408, step = 0\<rparr>" "None :: ring option"]
  by simp

theorem for_loop_count_counterexample:
  "sint (retval (time_bench_for_loop \<lparr>loops = 2147483648, step = 0\<rparr>
        (None :: ring option))) = - 2147483648
   \<and> sint (retval (time_bench_for_loop \<lparr>loops = 2147483648, step = 0\<rparr>
        (None :: ring option))) \<noteq> uint (2147483648 :: 32 word)"
  by (simp add: time_bench_for_loop_def for_loop_total ucast_up_down)

text \<open>
  C8.  With a null queue pointer every workload returns \<open>-1\<close> at once: its only effect is
  the error line, the timer is not started and the queue is not called.
\<close>

theorem null_queue_returns_minus_one:
  "time_bench_single_enqueue_dequeue api rec None =
     \<lparr>retval = - 1, queue_after = None,
      emitted = [Pr_err ''Need queue struct ptr as input'']\<rparr>
   \<and> time_multi_enqueue_dequeue api rec None =
     \<lparr>retval = - 1, queue_after = None,
      emitted = [Pr_err ''Need queue struct ptr as input'']\<rparr>
   \<and> time_BULK_enqueue_dequeue api rec None =
     \<lparr>retval = - 1, queue_after = None, emitted = [Pr_err ''Need alf_queue as input'']\<rparr>
   \<and> sint (retval (time_bench_single_enqueue_dequeue api rec None)) = - 1
   \<and> sint (retval (time_multi_enqueue_dequeue api rec None)) = - 1
   \<and> sint (retval (time_BULK_enqueue_dequeue api rec None)) = - 1
   \<and> no_timer_op (emitted (time_bench_single_enqueue_dequeue api rec None))
   \<and> no_timer_op (emitted (time_multi_enqueue_dequeue api rec None))
   \<and> no_timer_op (emitted (time_BULK_enqueue_dequeue api rec None))
   \<and> no_queue_op (emitted (time_bench_single_enqueue_dequeue api rec None))
   \<and> no_queue_op (emitted (time_multi_enqueue_dequeue api rec None))
   \<and> no_queue_op (emitted (time_BULK_enqueue_dequeue api rec None))"
  by (simp add: time_bench_single_enqueue_dequeue_def time_multi_enqueue_dequeue_def
        time_BULK_enqueue_dequeue_def no_timer_op_def no_queue_op_def)

text \<open>
  C9.  The bulk workload clamps the width before it evaluates the overflow guard.  A
  configuration with a width above 32 whose requested count \<open>2 * loops * bulk\<close> is
  \<open>2^32 - 1\<close> or more, but whose clamped count \<open>2 * loops * 32\<close> is below, is run:
  after the warning the timer is started, and when no call fails the count handed to
  \<^verbatim>\<open>time_bench_stop\<close> is \<open>2 * loops * 32\<close>.
\<close>

theorem bulk_guard_after_clamp:
  assumes "32 < sint (step rec)"
    and "4294967295 \<le> 2 * uint (loops rec) * sint (step rec)"
    and "2 * uint (loops rec) * 32 < 4294967295"
  shows "\<not> skipped (Some q) (time_BULK_enqueue_dequeue api rec (Some q))
         \<and> take 2 (emitted (time_BULK_enqueue_dequeue api rec (Some q)))
           = [Pr_warn ''%s() bulk(%d) request too big cap at %d''
                ''time_BULK_enqueue_dequeue'' (step rec) 32,
              Time_bench_start]
         \<and> (no_failure (emitted (time_BULK_enqueue_dequeue api rec (Some q))) \<longrightarrow>
              measured (emitted (time_BULK_enqueue_dequeue api rec (Some q)))
                = Some (2 * uint (loops rec) * 32))"
proof -
  let ?out = "time_BULK_enqueue_dequeue api rec (Some q)"
  let ?k = "unat (loops rec) * 64"
  from bulk_clamped_run [OF assms(1,3), of api q] obtain r q' ext where
    out: "?out = \<lparr>retval = r, queue_after = Some q',
                   emitted = [Pr_warn ''%s() bulk(%d) request too big cap at %d''
                                ''time_BULK_enqueue_dequeue'' (step rec) 32,
                              Time_bench_start] @ ext\<rparr>"
    by blast
  have a: "\<not> skipped (Some q) ?out"
    unfolding out by (simp add: skipped_def no_timer_op_def)
  have b: "take 2 (emitted ?out)
             = [Pr_warn ''%s() bulk(%d) request too big cap at %d''
                  ''time_BULK_enqueue_dequeue'' (step rec) 32,
                Time_bench_start]"
    unfolding out by simp
  have c: "measured (emitted ?out) = Some (2 * uint (loops rec) * 32)"
    if "no_failure (emitted ?out)"
  proof -
    from bulk_clamped_clean [OF assms(1,3) that] obtain q'' ext' where
      o: "?out = \<lparr>retval = of_nat ?k, queue_after = Some q'',
                   emitted = ([Pr_warn ''%s() bulk(%d) request too big cap at %d''
                                 ''time_BULK_enqueue_dequeue'' (step rec) 32]
                              @ Time_bench_start # ext')
                     @ [Time_bench_stop (of_nat ?k)]\<rparr>"
      by blast
    have k: "int ?k = 2 * uint (loops rec) * 32" by simp
    have "int ?k < 18446744073709551616" using assms(3) by (simp only: k)
    then have "measured (emitted ?out) = Some (int ?k)"
      unfolding o outcome.simps by (rule measured_stop)
    then show ?thesis by (simp only: k)
  qed
  from a b c show ?thesis by blast
qed

theorem bulk_guard_after_clamp_witness:
  "32 < sint (50 :: 32 word)
   \<and> 4294967295 \<le> 2 * uint (50000000 :: 32 word) * sint (50 :: 32 word)
   \<and> 2 * uint (50000000 :: 32 word) * 32 < 4294967295
   \<and> \<not> skipped (Some (512, []))
        (time_BULK_enqueue_dequeue ring_api \<lparr>loops = 50000000, step = 50\<rparr>
           (Some (512, [])))
   \<and> measured (emitted (time_BULK_enqueue_dequeue ring_api
        \<lparr>loops = 50000000, step = 50\<rparr> (Some (512, [])))) = Some 3200000000"
proof -
  let ?rec = "\<lparr>loops = 50000000, step = 50\<rparr>"
  have h: "no_failure (emitted (time_BULK_enqueue_dequeue ring_api ?rec (Some (512, []))))"
    by (rule ring_bulk_no_failure) simp_all
  have a: "32 < sint (step ?rec)" by simp
  have b: "4294967295 \<le> 2 * uint (loops ?rec) * sint (step ?rec)" by simp
  have c: "2 * uint (loops ?rec) * 32 < 4294967295" by simp
  from bulk_guard_after_clamp [OF a b c, of "(512, [])" ring_api] h show ?thesis by simp
qed

text \<open>
  C10.  The counter is a 64-bit value and the functions return \<^verbatim>\<open>int\<close>.  For a
  configuration that passes the overflow guard, runs without a failed call and counts
  more than \<open>2^31 - 1\<close> operations, \<^verbatim>\<open>time_bench_stop\<close> receives the true count,
  while the returned value holds the count modulo \<open>2^32\<close> and reads, as a signed
  number, as the count minus \<open>2^32\<close>.
\<close>

theorem int_return_wraps:
  "(no_failure (emitted (time_bench_single_enqueue_dequeue api rec (Some q)))
      \<and> 2147483647 < 2 * uint (loops rec) \<and> 2 * uint (loops rec) < 4294967295 \<longrightarrow>
      measured (emitted (time_bench_single_enqueue_dequeue api rec (Some q)))
        = Some (2 * uint (loops rec))
      \<and> uint (retval (time_bench_single_enqueue_dequeue api rec (Some q)))
        = (2 * uint (loops rec)) mod 4294967296
      \<and> sint (retval (time_bench_single_enqueue_dequeue api rec (Some q)))
        = 2 * uint (loops rec) - 4294967296)
   \<and> (no_failure (emitted (time_multi_enqueue_dequeue api rec (Some q)))
      \<and> 2147483647 < 2 * uint (loops rec) * sint (step rec)
      \<and> 2 * uint (loops rec) * sint (step rec) < 4294967295 \<longrightarrow>
      measured (emitted (time_multi_enqueue_dequeue api rec (Some q)))
        = Some (2 * uint (loops rec) * sint (step rec))
      \<and> uint (retval (time_multi_enqueue_dequeue api rec (Some q)))
        = (2 * uint (loops rec) * sint (step rec)) mod 4294967296
      \<and> sint (retval (time_multi_enqueue_dequeue api rec (Some q)))
        = 2 * uint (loops rec) * sint (step rec) - 4294967296)
   \<and> (no_failure (emitted (time_BULK_enqueue_dequeue api rec (Some q)))
      \<and> 2147483647 < 2 * uint (loops rec) * min (sint (step rec)) 32
      \<and> 2 * uint (loops rec) * min (sint (step rec)) 32 < 4294967295 \<longrightarrow>
      measured (emitted (time_BULK_enqueue_dequeue api rec (Some q)))
        = Some (2 * uint (loops rec) * min (sint (step rec)) 32)
      \<and> uint (retval (time_BULK_enqueue_dequeue api rec (Some q)))
        = (2 * uint (loops rec) * min (sint (step rec)) 32) mod 4294967296
      \<and> sint (retval (time_BULK_enqueue_dequeue api rec (Some q)))
        = 2 * uint (loops rec) * min (sint (step rec)) 32 - 4294967296)"
proof -
  have wrap: "measured (tr @ [Time_bench_stop (of_nat k)]) = Some v
              \<and> uint (of_nat k :: 32 word) = v mod 4294967296
              \<and> sint (of_nat k :: 32 word) = v - 4294967296"
    if "int k = v" and "2147483647 < v" and "v < 4294967295" for tr k v
  proof -
    from that have "int k < 18446744073709551616" by simp
    then have "measured (tr @ [Time_bench_stop (of_nat k)]) = Some (int k)"
      by (rule measured_stop)
    moreover have "sint (of_nat k :: 32 word) = int k - 4294967296"
      using that by (intro sint_of_nat_big) simp_all
    ultimately show ?thesis using that(1) by (simp only: uint_of_nat32)
  qed
  have single: "measured (emitted (time_bench_single_enqueue_dequeue api rec (Some q)))
        = Some (2 * uint (loops rec))
      \<and> uint (retval (time_bench_single_enqueue_dequeue api rec (Some q)))
        = (2 * uint (loops rec)) mod 4294967296
      \<and> sint (retval (time_bench_single_enqueue_dequeue api rec (Some q)))
        = 2 * uint (loops rec) - 4294967296"
    if h: "no_failure (emitted (time_bench_single_enqueue_dequeue api rec (Some q)))"
      and lo: "2147483647 < 2 * uint (loops rec)" and hi: "2 * uint (loops rec) < 4294967295"
  proof -
    from single_clean [OF hi h] obtain q' ext where
      out: "time_bench_single_enqueue_dequeue api rec (Some q) =
              \<lparr>retval = of_nat (2 * unat (loops rec)), queue_after = Some q',
               emitted = (Time_bench_start # ext)
                 @ [Time_bench_stop (of_nat (2 * unat (loops rec)))]\<rparr>"
      by auto
    have k: "int (2 * unat (loops rec)) = 2 * uint (loops rec)" by simp
    from wrap [OF k lo hi] show ?thesis unfolding out outcome.simps .
  qed
  have multi: "measured (emitted (time_multi_enqueue_dequeue api rec (Some q)))
        = Some (2 * uint (loops rec) * sint (step rec))
      \<and> uint (retval (time_multi_enqueue_dequeue api rec (Some q)))
        = (2 * uint (loops rec) * sint (step rec)) mod 4294967296
      \<and> sint (retval (time_multi_enqueue_dequeue api rec (Some q)))
        = 2 * uint (loops rec) * sint (step rec) - 4294967296"
    if h: "no_failure (emitted (time_multi_enqueue_dequeue api rec (Some q)))"
      and lo: "2147483647 < 2 * uint (loops rec) * sint (step rec)"
      and hi: "2 * uint (loops rec) * sint (step rec) < 4294967295"
  proof -
    from lo have nn: "0 \<le> 2 * uint (loops rec) * sint (step rec)" by linarith
    note ar = multi_arith [OF nn hi]
    from multi_clean [OF ar(1) h] obtain q' ext where
      out: "time_multi_enqueue_dequeue api rec (Some q) =
              \<lparr>retval = of_nat (unat (loops rec) * (2 * nat (sint (step rec)))),
               queue_after = Some q',
               emitted = (Time_bench_start # ext)
                 @ [Time_bench_stop
                      (of_nat (unat (loops rec) * (2 * nat (sint (step rec)))))]\<rparr>"
      by auto
    from wrap [OF ar(2) lo hi] show ?thesis unfolding out outcome.simps .
  qed
  have bulk: "measured (emitted (time_BULK_enqueue_dequeue api rec (Some q)))
        = Some (2 * uint (loops rec) * min (sint (step rec)) 32)
      \<and> uint (retval (time_BULK_enqueue_dequeue api rec (Some q)))
        = (2 * uint (loops rec) * min (sint (step rec)) 32) mod 4294967296
      \<and> sint (retval (time_BULK_enqueue_dequeue api rec (Some q)))
        = 2 * uint (loops rec) * min (sint (step rec)) 32 - 4294967296"
    if h: "no_failure (emitted (time_BULK_enqueue_dequeue api rec (Some q)))"
      and lo: "2147483647 < 2 * uint (loops rec) * min (sint (step rec)) 32"
      and hi: "2 * uint (loops rec) * min (sint (step rec)) 32 < 4294967295"
  proof (cases "32 < sint (step rec)")
    case True
    then have m: "min (sint (step rec)) 32 = 32" by simp
    from hi have hi': "2 * uint (loops rec) * 32 < 4294967295" by (simp only: m)
    from lo have lo': "2147483647 < 2 * uint (loops rec) * 32" by (simp only: m)
    from bulk_clamped_clean [OF True hi' h] obtain q' ext where
      out: "time_BULK_enqueue_dequeue api rec (Some q) =
              \<lparr>retval = of_nat (unat (loops rec) * 64), queue_after = Some q',
               emitted = ([Pr_warn ''%s() bulk(%d) request too big cap at %d''
                             ''time_BULK_enqueue_dequeue'' (step rec) 32]
                          @ Time_bench_start # ext)
                 @ [Time_bench_stop (of_nat (unat (loops rec) * 64))]\<rparr>"
      by blast
    have k: "int (unat (loops rec) * 64) = 2 * uint (loops rec) * 32" by simp
    from wrap [OF k lo' hi'] show ?thesis unfolding out outcome.simps m .
  next
    case False
    then have le: "sint (step rec) \<le> 32" and m: "min (sint (step rec)) 32 = sint (step rec)"
      by simp_all
    from hi have hi': "2 * uint (loops rec) * sint (step rec) < 4294967295" by (simp only: m)
    from lo have lo': "2147483647 < 2 * uint (loops rec) * sint (step rec)" by (simp only: m)
    have nn: "0 \<le> sint (step rec)"
    proof (rule ccontr)
      assume "\<not> 0 \<le> sint (step rec)"
      then have "2 * uint (loops rec) * sint (step rec) \<le> 0"
        by (intro mult_nonneg_nonpos) simp_all
      with lo' show False by simp
    qed
    from bulk_plain_clean [OF le nn hi' h] obtain q' ext where
      out: "time_BULK_enqueue_dequeue api rec (Some q) =
              \<lparr>retval = of_nat (unat (loops rec) * (2 * nat (sint (step rec)))),
               queue_after = Some q',
               emitted = ([] @ Time_bench_start # ext)
                 @ [Time_bench_stop
                      (of_nat (unat (loops rec) * (2 * nat (sint (step rec)))))]\<rparr>"
      by blast
    from wrap [OF int_count [OF nn] lo' hi'] show ?thesis unfolding out outcome.simps m .
  qed
  from single multi bulk show ?thesis by blast
qed

theorem int_return_wraps_witness:
  "no_failure (emitted (time_bench_single_enqueue_dequeue ring_api
        \<lparr>loops = 2000000000, step = 128\<rparr> (Some (512, []))))
   \<and> 2147483647 < 2 * uint (2000000000 :: 32 word)
   \<and> 2 * uint (2000000000 :: 32 word) < 4294967295
   \<and> measured (emitted (time_bench_single_enqueue_dequeue ring_api
        \<lparr>loops = 2000000000, step = 128\<rparr> (Some (512, [])))) = Some 4000000000
   \<and> sint (retval (time_bench_single_enqueue_dequeue ring_api
        \<lparr>loops = 2000000000, step = 128\<rparr> (Some (512, [])))) = - 294967296
   \<and> no_failure (emitted (time_multi_enqueue_dequeue ring_api
        \<lparr>loops = 10000000, step = 128\<rparr> (Some (512, []))))
   \<and> 2147483647 < 2 * uint (10000000 :: 32 word) * sint (128 :: 32 word)
   \<and> 2 * uint (10000000 :: 32 word) * sint (128 :: 32 word) < 4294967295
   \<and> measured (emitted (time_multi_enqueue_dequeue ring_api
        \<lparr>loops = 10000000, step = 128\<rparr> (Some (512, [])))) = Some 2560000000
   \<and> sint (retval (time_multi_enqueue_dequeue ring_api
        \<lparr>loops = 10000000, step = 128\<rparr> (Some (512, [])))) = - 1734967296
   \<and> no_failure (emitted (time_BULK_enqueue_dequeue ring_api
        \<lparr>loops = 50000000, step = 128\<rparr> (Some (512, []))))
   \<and> 2147483647 < 2 * uint (50000000 :: 32 word) * min (sint (128 :: 32 word)) 32
   \<and> 2 * uint (50000000 :: 32 word) * min (sint (128 :: 32 word)) 32 < 4294967295
   \<and> measured (emitted (time_BULK_enqueue_dequeue ring_api
        \<lparr>loops = 50000000, step = 128\<rparr> (Some (512, [])))) = Some 3200000000
   \<and> sint (retval (time_BULK_enqueue_dequeue ring_api
        \<lparr>loops = 50000000, step = 128\<rparr> (Some (512, [])))) = - 1094967296"
proof -
  have s: "no_failure (emitted (time_bench_single_enqueue_dequeue ring_api
        \<lparr>loops = 2000000000, step = 128\<rparr> (Some (512, []))))"
    by (rule ring_single_no_failure) simp
  have m: "no_failure (emitted (time_multi_enqueue_dequeue ring_api
        \<lparr>loops = 10000000, step = 128\<rparr> (Some (512, []))))"
    by (rule ring_multi_no_failure) simp
  have b: "no_failure (emitted (time_BULK_enqueue_dequeue ring_api
        \<lparr>loops = 50000000, step = 128\<rparr> (Some (512, []))))"
    by (rule ring_bulk_no_failure) simp_all
  from s m b
    int_return_wraps [of ring_api "\<lparr>loops = 2000000000, step = 128\<rparr>" "(512, [])"]
    int_return_wraps [of ring_api "\<lparr>loops = 10000000, step = 128\<rparr>" "(512, [])"]
    int_return_wraps [of ring_api "\<lparr>loops = 50000000, step = 128\<rparr>" "(512, [])"]
  show ?thesis by simp
qed

end
